theory Spec2Isabelle
  imports Main
begin

section \<open>The WalletConnect v2 connector (packages/walletconnect-v2/src/index.ts)\<close>

text \<open>
  Conventions of the embedding.
  \<^item> Chain ids are JavaScript numbers; they are modelled as \<open>int\<close>. \<open>NaN\<close> only arises
    as a result of \<open>Number.parseInt\<close> and is kept there (type \<open>number\<close>); fractional
    values and the loss of precision above \<open>2 ^ 53\<close> are not modelled.
  \<^item> \<open>undefined\<close> is \<open>None\<close>. JavaScript truthiness of a \<open>number | undefined\<close> is
    \<open>truthy\<close>: \<open>undefined\<close> and \<open>0\<close> are falsy.
  \<^item> A thrown error or a rejected promise is \<open>Inl e\<close>.
  \<^item> Provider objects live in a store (\<open>heap\<close>) and are referred to by address, so that
    the Provider built by \<open>initializeProvider\<close> and the one held in \<open>this.provider\<close> can
    be told apart.
  \<^item> The calls made on the \<open>Actions\<close> collaborator are recorded in call order.
  \<^item> The answers of the outside world (the dynamic import, the endpoint selection, the
    library's \<open>init\<close>, \<open>enable\<close> and \<open>request\<close>) are the fields of an \<open>env\<close>: every
    operation is run to completion against one such answer.
\<close>

subsection \<open>Errors and numbers\<close>

datatype error =
    NoChainsConfigured            \<comment> \<open>'Either chains or optionalChains must have at least one item.'\<close>
  | NoActiveSession               \<comment> \<open>'No active session found. Connect your wallet first.'\<close>
  | OptionalChainNotConnected int \<comment> \<open>'Cannot activate an optional chain (..), as the wallet is not connected to it. ..'\<close>
  | UnknownChain int              \<comment> \<open>'Unknown chain (..). Make sure to include any chains ..'\<close>
  | ExternalFailure string        \<comment> \<open>anything thrown by the import, the endpoint selection or the Provider\<close>

datatype number = NaN | Num int

definition truthy :: "int option \<Rightarrow> bool" where
  "truthy d = (case d of None \<Rightarrow> False | Some n \<Rightarrow> n \<noteq> 0)"

subsection \<open>Strings: \<open>Number.prototype.toString\<close>, \<open>String.prototype.startsWith\<close>, \<open>Number.parseInt\<close>\<close>

definition digitChar :: "nat \<Rightarrow> char" where
  "digitChar k = ''0123456789abcdef'' ! k"

fun natToString :: "nat \<Rightarrow> nat \<Rightarrow> string" where
  "natToString r n =
     (if r < 2 \<or> n < r then [digitChar n]
      else natToString r (n div r) @ [digitChar (n mod r)])"

declare natToString.simps [simp del]

text \<open>\<open>n.toString(radix)\<close> for an integral \<open>n\<close> (below the magnitude at which JavaScript
  switches to exponent notation in radix 10).\<close>

definition toString :: "nat \<Rightarrow> int \<Rightarrow> string" where
  "toString r n = (if n < 0 then CHR ''-'' # natToString r (nat (- n)) else natToString r (nat n))"

definition startsWith :: "string \<Rightarrow> string \<Rightarrow> bool" where
  "startsWith s p = (take (length p) s = p)"

definition isWhiteSpace :: "char \<Rightarrow> bool" where
  "isWhiteSpace c = (c \<in> set [CHR 0x09, CHR 0x0A, CHR 0x0B, CHR 0x0C, CHR 0x0D, CHR '' ''])"

definition hexDigitValue :: "char \<Rightarrow> nat option" where
  "hexDigitValue c =
     (let k = of_char c :: nat in
      if 48 \<le> k \<and> k \<le> 57 then Some (k - 48)
      else if 97 \<le> k \<and> k \<le> 102 then Some (k - 87)
      else if 65 \<le> k \<and> k \<le> 70 then Some (k - 55)
      else None)"

definition isHexDigit :: "char \<Rightarrow> bool" where
  "isHexDigit c = (hexDigitValue c \<noteq> None)"

definition hexValue :: "string \<Rightarrow> nat" where
  "hexValue z = foldl (\<lambda>acc c. 16 * acc + the (hexDigitValue c)) 0 z"

text \<open>
  \<open>Number.parseInt(string, 16)\<close> as ECMAScript defines it: leading white space is
  dropped (the ASCII white space characters here), then an optional sign, then an optional
  \<open>0x\<close> or \<open>0X\<close>, then the longest run of hexadecimal digits is read; if that run is
  empty the result is \<open>NaN\<close>. (\<open>-0\<close> is not told apart from \<open>0\<close>.)
\<close>

definition parseInt16 :: "string \<Rightarrow> number" where
  "parseInt16 str =
     (let s0 = dropWhile isWhiteSpace str;
          sign = (case s0 of c # _ \<Rightarrow> if c = CHR ''-'' then - 1 else 1 | [] \<Rightarrow> (1::int));
          s1 = (case s0 of c # rest \<Rightarrow> if c = CHR ''-'' \<or> c = CHR ''+'' then rest else s0 | [] \<Rightarrow> s0);
          s2 = (case s1 of a # b # rest \<Rightarrow>
                  if a = CHR ''0'' \<and> (b = CHR ''x'' \<or> b = CHR ''X'') then rest else s1
                | _ \<Rightarrow> s1);
          z = takeWhile isHexDigit s2
      in if z = [] then NaN else Num (sign * int (hexValue z)))"

subsection \<open>Chain configuration\<close>

text \<open>Modelled from the spec: \<open>isArrayOneOrMore\<close> lives in \<open>./utils\<close>, which is not among
  the sources. The spec has the validator check that a list "is non-empty"; an absent list
  is not.\<close>

definition isArrayOneOrMore :: "int list option \<Rightarrow> bool" where
  "isArrayOneOrMore input = (case input of None \<Rightarrow> False | Some xs \<Rightarrow> xs \<noteq> [])"

text \<open>Modelled from the spec: \<open>getChainsWithDefault\<close> lives in \<open>./utils\<close>, which is not
  among the sources. The spec (4.2): "return a new sequence with desiredChainId first,
  followed by the remaining elements of chains in their original relative order". The one
  element moved to the front is taken out of the rest; the only call site has checked that
  it is an element of \<open>chains\<close>.\<close>

definition getChainsWithDefault :: "int list \<Rightarrow> int \<Rightarrow> int list" where
  "getChainsWithDefault cs defaultChainId = defaultChainId # remove1 defaultChainId cs"

definition reorderChainsBasedOnId :: "int list option \<Rightarrow> int option \<Rightarrow> int list option" where
  "reorderChainsBasedOnId chs desiredChainId =
     (case chs of
        None \<Rightarrow> chs
      | Some cs \<Rightarrow>
          (case desiredChainId of
             None \<Rightarrow> chs
           | Some d \<Rightarrow>
               if d = 0 \<or> d \<notin> set cs \<or> length cs = 0 then chs
               else Some (getChainsWithDefault cs d)))"

text \<open>The two fields of \<open>ChainsProps\<close> are \<open>chains\<close> and \<open>optionalChains\<close> in the source
  (\<open>chains\<close> is already a constant of the library).\<close>

record ChainsProps =
  props_chains :: "int list option"
  props_optionalChains :: "int list option"


subsection \<open>The external collaborators: Provider, Actions, the outside world\<close>

datatype listener = disconnectListener | chainChangedListener | accountsChangedListener | URIListener

text \<open>
  What the connector reads and changes of a \<open>WalletConnectProvider\<close>: its registered
  listeners (event name and callback, in registration order), \<open>session\<close> (when present,
  its \<open>namespaces.eip155.accounts\<close>), \<open>chainId\<close> and \<open>accounts\<close>.
\<close>

record wc_provider =
  listeners :: "(string \<times> listener) list"
  session :: "string list option"
  chainId :: int
  accounts :: "string list"

text \<open>The other calls the connector makes on a Provider; they are recorded, with the
  address of the Provider, in call order.\<close>

datatype provider_call =
    Enable                                \<comment> \<open>\<open>provider.enable()\<close>\<close>
  | SwitchEthereumChain string            \<comment> \<open>\<open>provider.request({method: 'wallet_switchEthereumChain', params: [{chainId}]})\<close>\<close>
  | Disconnect                            \<comment> \<open>\<open>provider.disconnect()\<close>\<close>

datatype action_call =
    StartActivation
  | CancelActivation          \<comment> \<open>the function returned by \<open>startActivation()\<close>, called\<close>
  | Update "number option" "string list option"   \<comment> \<open>\<open>update({chainId?, accounts?})\<close>\<close>
  | ResetState

text \<open>A promise of a Provider: which construction it belongs to, and what it settles to
  (rejected with an error, or resolved with the address of a Provider).\<close>

record promise =
  construction :: nat
  settled :: "error + nat"

record env =
  import_outcome :: "error option"    \<comment> \<open>\<open>await import('@walletconnect/ethereum-provider')\<close> throws\<close>
  urlmap_outcome :: "error option"    \<comment> \<open>\<open>await getBestUrlMap(..)\<close> throws\<close>
  init_outcome :: "error + wc_provider"   \<comment> \<open>\<open>await ethProviderModule.default.init(..)\<close>\<close>
  enable_outcome :: "error + (string list \<times> int \<times> string list)"
     \<comment> \<open>\<open>await provider.enable()\<close>: throws, or leaves a session, a chain id and accounts\<close>
  request_outcome :: "error option"   \<comment> \<open>\<open>provider.request(..)\<close> rejects\<close>

text \<open>
  The connector instance together with the objects it talks to. \<open>constructions\<close> and
  \<open>deactivations\<close> are counters of the model (how many times \<open>initializeProvider\<close> and
  \<open>deactivate\<close> have been entered); \<open>init_log\<close> records the chain properties handed to
  the library's \<open>init\<close>. The type parameter is what stands for a
  \<open>Promise<WalletConnectProvider>\<close>: a \<open>promise\<close> where every operation is run to
  completion, the number of a construction where operations overlap (further down).
\<close>

record 'p state =
  opt_chains :: "int list option"          \<comment> \<open>\<open>this.options.chains\<close>\<close>
  opt_optionalChains :: "int list option"  \<comment> \<open>\<open>this.options.optionalChains\<close>\<close>
  defaultChainId :: "int option"
  has_rpcMap :: bool                        \<comment> \<open>\<open>this.rpcMap\<close> is set\<close>
  has_onError :: bool                       \<comment> \<open>\<open>this.onError\<close> is set\<close>
  provider :: "nat option"                  \<comment> \<open>\<open>this.provider\<close>\<close>
  eagerConnection :: "'p option"            \<comment> \<open>\<open>this.eagerConnection\<close>\<close>
  heap :: "nat \<Rightarrow> wc_provider"
  next_ref :: nat
  actions_log :: "action_call list"
  provider_log :: "(nat \<times> provider_call) list"
  emitted :: "(string \<times> string) list"       \<comment> \<open>\<open>this.events.emit(topic, payload)\<close>\<close>
  reported :: "string list"                 \<comment> \<open>\<open>this.onError(error)\<close>\<close>
  init_log :: "ChainsProps list"
  constructions :: nat
  deactivations :: nat

definition URI_AVAILABLE :: string where
  "URI_AVAILABLE = ''URI_AVAILABLE''"

definition on :: "string \<Rightarrow> listener \<Rightarrow> wc_provider \<Rightarrow> wc_provider" where
  "on ev l p = p\<lparr>listeners := listeners p @ [(ev, l)]\<rparr>"

definition removeListener :: "string \<Rightarrow> listener \<Rightarrow> wc_provider \<Rightarrow> wc_provider" where
  "removeListener ev l p = p\<lparr>listeners := remove1 (ev, l) (listeners p)\<rparr>"

definition call :: "nat \<Rightarrow> provider_call \<Rightarrow> 'p state \<Rightarrow> 'p state" where
  "call r c s = s\<lparr>provider_log := provider_log s @ [(r, c)]\<rparr>"

definition act :: "action_call \<Rightarrow> 'p state \<Rightarrow> 'p state" where
  "act c s = s\<lparr>actions_log := actions_log s @ [c]\<rparr>"

subsection \<open>The connector\<close>

definition handleProviderEvents :: "nat \<Rightarrow> 'p state \<Rightarrow> 'p state" where
  "handleProviderEvents r s =
     s\<lparr>heap := (heap s)(r :=
          (on ''display_uri'' URIListener
            (on ''accountsChanged'' accountsChangedListener
              (on ''chainChanged'' chainChangedListener
                (on ''disconnect'' disconnectListener (heap s r))))))\<rparr>"

definition disconnectListener_fn :: "string option \<Rightarrow> 'p state \<Rightarrow> 'p state" where
  "disconnectListener_fn err s =
     (let s1 = act ResetState s in
      case err of
        None \<Rightarrow> s1
      | Some e \<Rightarrow> if has_onError s1 then s1\<lparr>reported := reported s1 @ [e]\<rparr> else s1)"

definition chainChangedListener_fn :: "string \<Rightarrow> 'p state \<Rightarrow> 'p state" where
  "chainChangedListener_fn cid s = act (Update (Some (parseInt16 cid)) None) s"

definition accountsChangedListener_fn :: "string list \<Rightarrow> 'p state \<Rightarrow> 'p state" where
  "accountsChangedListener_fn accs s = act (Update None (Some accs)) s"

definition URIListener_fn :: "string \<Rightarrow> 'p state \<Rightarrow> 'p state" where
  "URIListener_fn uri s = s\<lparr>emitted := emitted s @ [(URI_AVAILABLE, uri)]\<rparr>"

text \<open>A parameter with a default value takes the default exactly when the argument is
  \<open>undefined\<close>.\<close>

definition orDefault :: "int option \<Rightarrow> 'p state \<Rightarrow> int option" where
  "orDefault desiredChainId s =
     (case desiredChainId of None \<Rightarrow> defaultChainId s | Some d \<Rightarrow> Some d)"

definition getChainProps :: "'p state \<Rightarrow> int option \<Rightarrow> error + ChainsProps" where
  "getChainProps s desiredChainId =
     (let d = orDefault desiredChainId s;
          orderedChains = reorderChainsBasedOnId (opt_chains s) d;
          orderedOptionalChains = reorderChainsBasedOnId (opt_optionalChains s) d
      in if isArrayOneOrMore orderedChains
           then Inr \<lparr>props_chains = orderedChains, props_optionalChains = orderedOptionalChains\<rparr>
         else if isArrayOneOrMore orderedOptionalChains
           then Inr \<lparr>props_chains = orderedChains, props_optionalChains = orderedOptionalChains\<rparr>
         else Inl NoChainsConfigured)"

text \<open>
  \<open>initializeProvider\<close>: the import, then the endpoint selection when an \<open>rpcMap\<close> is
  configured, then the evaluation of the argument of \<open>init\<close> (where \<open>getChainProps\<close> may
  throw), then \<open>init\<close>, then the wiring of the listeners. The Provider is bound to the
  local constant \<open>provider\<close> only: the field \<open>this.provider\<close> is not assigned.
\<close>

definition initializeProvider :: "env \<Rightarrow> int option \<Rightarrow> promise state \<Rightarrow> promise \<times> promise state" where
  "initializeProvider e desiredChainId s =
     (let d = orDefault desiredChainId s;
          n = constructions s;
          s0 = s\<lparr>constructions := Suc n\<rparr>
      in case import_outcome e of
           Some err \<Rightarrow> (\<lparr>construction = n, settled = Inl err\<rparr>, s0)
         | None \<Rightarrow>
        (case (if has_rpcMap s then urlmap_outcome e else None) of
           Some err \<Rightarrow> (\<lparr>construction = n, settled = Inl err\<rparr>, s0)
         | None \<Rightarrow>
        (case getChainProps s d of
           Inl err \<Rightarrow> (\<lparr>construction = n, settled = Inl err\<rparr>, s0)
         | Inr props \<Rightarrow>
        (let s1 = s0\<lparr>init_log := init_log s0 @ [props]\<rparr> in
         case init_outcome e of
           Inl err \<Rightarrow> (\<lparr>construction = n, settled = Inl err\<rparr>, s1)
         | Inr p \<Rightarrow>
             (let r = next_ref s1;
                  s2 = s1\<lparr>heap := (heap s1)(r := p), next_ref := Suc r\<rparr>
              in (\<lparr>construction = n, settled = Inr r\<rparr>, handleProviderEvents r s2))))))"

definition isomorphicInitialize :: "env \<Rightarrow> int option \<Rightarrow> promise state \<Rightarrow> promise \<times> promise state" where
  "isomorphicInitialize e desiredChainId s =
     (case eagerConnection s of
        Some h \<Rightarrow> (h, s)
      | None \<Rightarrow>
          (case initializeProvider e (orDefault desiredChainId s) s of
             (h, s1) \<Rightarrow> (h, s1\<lparr>eagerConnection := Some h\<rparr>)))"

definition deactivate :: "'p state \<Rightarrow> 'p state" where
  "deactivate s =
     (let s1 = (case provider s of
                  None \<Rightarrow> s
                | Some r \<Rightarrow>
                    call r Disconnect
                      (s\<lparr>heap := (heap s)(r :=
                           (removeListener ''display_uri'' URIListener
                             (removeListener ''accountsChanged'' accountsChangedListener
                               (removeListener ''chainChanged'' chainChangedListener
                                 (removeListener ''disconnect'' disconnectListener (heap s r))))))\<rparr>))
      in act ResetState
           (s1\<lparr>provider := None, eagerConnection := None, deactivations := Suc (deactivations s1)\<rparr>))"

definition connectEagerly :: "env \<Rightarrow> promise state \<Rightarrow> (error + unit) \<times> promise state" where
  "connectEagerly e s =
     (let s0 = act StartActivation s in
      case isomorphicInitialize e None s0 of
        (h, s1) \<Rightarrow>
          (case settled h of
             Inl err \<Rightarrow> (Inl err, act CancelActivation (deactivate s1))
           | Inr r \<Rightarrow>
               (case session (heap s1 r) of
                  None \<Rightarrow> (Inl NoActiveSession, act CancelActivation (deactivate s1))
                | Some _ \<Rightarrow>
                    (Inr (),
                     act (Update (Some (Num (chainId (heap s1 r)))) (Some (accounts (heap s1 r)))) s1))))"

definition isConnectedToDesiredChain :: "string list \<Rightarrow> int \<Rightarrow> bool" where
  "isConnectedToDesiredChain accs desiredChainId =
     list_ex (\<lambda>account. startsWith account (''eip155:'' @ toString 10 desiredChainId @ '':'')) accs"

text \<open>\<open>xs?.includes(d)\<close>: falsy when \<open>xs\<close> is \<open>undefined\<close>.\<close>

definition includes_opt :: "int list option \<Rightarrow> int \<Rightarrow> bool" where
  "includes_opt xs d = (case xs of None \<Rightarrow> False | Some ys \<Rightarrow> d \<in> set ys)"

definition activate :: "env \<Rightarrow> int option \<Rightarrow> promise state \<Rightarrow> (error + unit) \<times> promise state" where
  "activate e desiredChainId s =
     (case isomorphicInitialize e desiredChainId s of
        (h, s1) \<Rightarrow>
          (case settled h of
             Inl err \<Rightarrow> (Inl err, s1)
           | Inr r \<Rightarrow>
               (case session (heap s1 r) of
                  Some sess \<Rightarrow>
                    (if \<not> truthy desiredChainId \<or> desiredChainId = Some (chainId (heap s1 r))
                       then (Inr (), s1)
                     else
                       (let d = the desiredChainId in
                        if \<not> isConnectedToDesiredChain sess d then
                          (if includes_opt (opt_optionalChains s1) d
                             then (Inl (OptionalChainNotConnected d), s1)
                           else (Inl (UnknownChain d), s1))
                        else
                          (let s2 = call r (SwitchEthereumChain (''0x'' @ toString 16 d)) s1
                           in case request_outcome e of
                                Some err \<Rightarrow> (Inl err, s2)
                              | None \<Rightarrow> (Inr (), s2))))
                | None \<Rightarrow>
                    (let s2 = call r Enable (act StartActivation s1) in
                     case enable_outcome e of
                       Inl err \<Rightarrow> (Inl err, act CancelActivation (deactivate s2))
                     | Inr (sess, cid, accs) \<Rightarrow>
                         (Inr (),
                          act (Update (Some (Num cid)) (Some accs))
                            (s2\<lparr>heap := (heap s2)(r := (heap s2 r)
                                  \<lparr>session := Some sess, chainId := cid, accounts := accs\<rparr>)\<rparr>))))))"

text \<open>The operations that can reach a connector instance from outside: its three public
  methods, and the four listeners (called by whichever Provider they are registered on).
  \<open>run\<close> takes them one after the other, each to its end, as a caller does who awaits
  every call before the next; calls that overlap are modelled further down.\<close>

datatype operation =
    ConnectEagerly env
  | Activate env "int option"
  | Deactivate
  | OnDisconnect "string option"
  | OnChainChanged string
  | OnAccountsChanged "string list"
  | OnDisplayUri string

fun perform :: "operation \<Rightarrow> promise state \<Rightarrow> promise state" where
  "perform (ConnectEagerly e) s = snd (connectEagerly e s)"
| "perform (Activate e d) s = snd (activate e d s)"
| "perform Deactivate s = deactivate s"
| "perform (OnDisconnect err) s = disconnectListener_fn err s"
| "perform (OnChainChanged cid) s = chainChangedListener_fn cid s"
| "perform (OnAccountsChanged accs) s = accountsChangedListener_fn accs s"
| "perform (OnDisplayUri uri) s = URIListener_fn uri s"

fun run :: "operation list \<Rightarrow> promise state \<Rightarrow> promise state" where
  "run [] s = s"
| "run (x # xs) s = run xs (perform x s)"

text \<open>A connector as its constructor leaves it, with nothing built yet.\<close>

definition blank :: wc_provider where
  "blank = \<lparr>listeners = [], session = None, chainId = 0, accounts = []\<rparr>"

definition new_connector :: "int list option \<Rightarrow> int list option \<Rightarrow> int option \<Rightarrow> promise state" where
  "new_connector cs ocs dflt =
     \<lparr>opt_chains = cs, opt_optionalChains = ocs, defaultChainId = dflt,
      has_rpcMap = False, has_onError = False, provider = None, eagerConnection = None,
      heap = (\<lambda>_. blank), next_ref = 0, actions_log = [], provider_log = [], emitted = [],
      reported = [],
      init_log = [], constructions = 0, deactivations = 0\<rparr>"

text \<open>Sample answers of the outside world: the import and the endpoint selection go
  through, \<open>init\<close> and \<open>enable\<close> answer as given, \<open>request\<close> succeeds. And two sample
  Providers as \<open>init\<close> may return them: one that restored a session on chain 1, one
  without a session. \<open>rejected\<close> is an \<open>enable\<close> that throws.\<close>

definition world :: "error + wc_provider \<Rightarrow> error + (string list \<times> int \<times> string list) \<Rightarrow> env" where
  "world i en =
     \<lparr>import_outcome = None, urlmap_outcome = None, init_outcome = i, enable_outcome = en,
      request_outcome = None\<rparr>"

definition restored :: wc_provider where
  "restored = \<lparr>listeners = [], session = Some [''eip155:1:0xabc''], chainId = 1, accounts = [''0xabc'']\<rparr>"

definition sessionless :: wc_provider where
  "sessionless = \<lparr>listeners = [], session = None, chainId = 1, accounts = []\<rparr>"

definition rejected :: "error + (string list \<times> int \<times> string list)" where
  "rejected = Inl (ExternalFailure ''User rejected'')"

subsection \<open>Overlapping operations\<close>

text \<open>
  \<open>perform\<close> and \<open>run\<close> above take one operation after the other, each to its end. In
  the source \<open>connectEagerly\<close>, \<open>activate\<close> and \<open>initializeProvider\<close> are \<open>async\<close>: a
  call runs up to its next \<open>await\<close> and is suspended there, and other calls and
  listeners run in between. This is modelled here. A suspended call is a \<open>task\<close>, named
  after the \<open>await\<close> at which it stands; one step of the system (\<open>fire\<close>) is a new
  call of a public method up to its first \<open>await\<close>, a listener, or the resumption of one
  suspended call up to its next \<open>await\<close> or its end. Suspended calls may be resumed in any
  order. \<open>isomorphicInitialize\<close> and the body of \<open>deactivate\<close> contain no \<open>await\<close> and
  are never interrupted.

  A promise of a Provider is the number of the construction it belongs to; what it is
  settled to, once it is, is kept in \<open>settlement\<close>. \<open>handed\<close> and \<open>observed\<close> are records
  of the model: for every call of \<open>isomorphicInitialize\<close> the number of \<open>deactivate\<close>
  calls so far and the promise returned, and for every caller resumed from awaiting a
  promise, the promise and the outcome received.
\<close>

datatype task =
    AwaitImport nat "int option"            \<comment> \<open>\<open>initializeProvider\<close>, line 108\<close>
  | AwaitUrlMap nat "int option"            \<comment> \<open>\<open>initializeProvider\<close>, line 109\<close>
  | AwaitInit nat                           \<comment> \<open>\<open>initializeProvider\<close>, line 111\<close>
  | Settled                                 \<comment> \<open>\<open>initializeProvider\<close> has returned or thrown\<close>
  | EagerAwaitProvider nat                  \<comment> \<open>\<open>connectEagerly\<close>, line 161\<close>
  | EagerAwaitDeactivate error              \<comment> \<open>\<open>connectEagerly\<close>, line 168\<close>
  | ActivateAwaitProvider nat "int option"  \<comment> \<open>\<open>activate\<close>, line 175\<close>
  | ActivateAwaitRequest                    \<comment> \<open>\<open>activate\<close>, line 194\<close>
  | ActivateAwaitEnable nat                 \<comment> \<open>\<open>activate\<close>, line 203\<close>
  | ActivateAwaitDeactivate error           \<comment> \<open>\<open>activate\<close>, line 206\<close>
  | Returned "error + unit"                 \<comment> \<open>a public method has returned or thrown\<close>

text \<open>What the outside world answers to the awaited import, endpoint selection,
  \<open>init\<close>, \<open>enable\<close> or \<open>request\<close>.\<close>

datatype answer =
    Succeeded
  | Failed error
  | Built wc_provider
  | Enabled "string list" int "string list"

record system =
  conn :: "nat state"
  settlement :: "nat \<Rightarrow> (error + nat) option"
  tasks :: "task list"
  handed :: "(nat \<times> nat) list"
  observed :: "(nat \<times> (error + nat)) list"

definition upd :: "(nat state \<Rightarrow> nat state) \<Rightarrow> system \<Rightarrow> system" where
  "upd f sys = sys\<lparr>conn := f (conn sys)\<rparr>"

definition settle :: "nat \<Rightarrow> error + nat \<Rightarrow> system \<Rightarrow> system" where
  "settle n v sys = sys\<lparr>settlement := (settlement sys)(n := Some v)\<rparr>"

definition observe :: "nat \<Rightarrow> error + nat \<Rightarrow> system \<Rightarrow> system" where
  "observe n v sys = sys\<lparr>observed := observed sys @ [(n, v)]\<rparr>"

text \<open>\<open>isomorphicInitialize\<close> (lines 148-154). The call of \<open>initializeProvider\<close> creates
  a pending promise and runs up to the \<open>await\<close> of line 108.\<close>

definition isomorphicInitialize_call :: "int option \<Rightarrow> system \<Rightarrow> nat \<times> system" where
  "isomorphicInitialize_call desiredChainId sys =
     (case eagerConnection (conn sys) of
        Some n \<Rightarrow> (n, sys\<lparr>handed := handed sys @ [(deactivations (conn sys), n)]\<rparr>)
      | None \<Rightarrow>
          (let n = constructions (conn sys) in
           (n, sys\<lparr>conn := (conn sys)\<lparr>constructions := Suc n, eagerConnection := Some n\<rparr>,
                   settlement := (settlement sys)(n := None),
                   tasks := tasks sys @ [AwaitImport n (orDefault desiredChainId (conn sys))],
                   handed := handed sys @ [(deactivations (conn sys), n)]\<rparr>)))"

text \<open>\<open>initializeProvider\<close> from the evaluation of the argument of \<open>init\<close> (line 113) up
  to the \<open>await\<close> of line 111.\<close>

definition callInit :: "nat \<Rightarrow> int option \<Rightarrow> system \<Rightarrow> task \<times> system" where
  "callInit n d sys =
     (case getChainProps (conn sys) d of
        Inl err \<Rightarrow> (Settled, settle n (Inl err) sys)
      | Inr props \<Rightarrow> (AwaitInit n, upd (\<lambda>c. c\<lparr>init_log := init_log c @ [props]\<rparr>) sys))"

text \<open>The resumption of a suspended call with the answer it was waiting for, up to its
  next \<open>await\<close> or its end. A call that awaits a promise of a Provider stays where it is
  while the promise is pending; the answer plays no part for it.\<close>

fun continue :: "task \<Rightarrow> answer \<Rightarrow> system \<Rightarrow> task \<times> system" where
  "continue (AwaitImport n d) a sys =
     (case a of
        Failed err \<Rightarrow> (Settled, settle n (Inl err) sys)
      | _ \<Rightarrow> if has_rpcMap (conn sys) then (AwaitUrlMap n d, sys) else callInit n d sys)"
| "continue (AwaitUrlMap n d) a sys =
     (case a of
        Failed err \<Rightarrow> (Settled, settle n (Inl err) sys)
      | _ \<Rightarrow> callInit n d sys)"
| "continue (AwaitInit n) a sys =
     (case a of
        Failed err \<Rightarrow> (Settled, settle n (Inl err) sys)
      | Built p \<Rightarrow>
          (let r = next_ref (conn sys) in
           (Settled,
            settle n (Inr r)
              (upd (\<lambda>c. handleProviderEvents r (c\<lparr>heap := (heap c)(r := p), next_ref := Suc r\<rparr>)) sys)))
      | _ \<Rightarrow> (AwaitInit n, sys))"
| "continue Settled a sys = (Settled, sys)"
| "continue (EagerAwaitProvider n) a sys =
     (case settlement sys n of
        None \<Rightarrow> (EagerAwaitProvider n, sys)
      | Some v \<Rightarrow>
          (let sys1 = observe n v sys in
           case v of
             Inl err \<Rightarrow> (EagerAwaitDeactivate err, upd deactivate sys1)
           | Inr r \<Rightarrow>
               (case session (heap (conn sys1) r) of
                  None \<Rightarrow> (EagerAwaitDeactivate NoActiveSession, upd deactivate sys1)
                | Some _ \<Rightarrow>
                    (Returned (Inr ()),
                     upd (\<lambda>c. act (Update (Some (Num (chainId (heap c r)))) (Some (accounts (heap c r)))) c)
                       sys1))))"
| "continue (EagerAwaitDeactivate err) a sys = (Returned (Inl err), upd (act CancelActivation) sys)"
| "continue (ActivateAwaitProvider n desiredChainId) a sys =
     (case settlement sys n of
        None \<Rightarrow> (ActivateAwaitProvider n desiredChainId, sys)
      | Some v \<Rightarrow>
          (let sys1 = observe n v sys in
           case v of
             Inl err \<Rightarrow> (Returned (Inl err), sys1)
           | Inr r \<Rightarrow>
               (case session (heap (conn sys1) r) of
                  Some sess \<Rightarrow>
                    (if \<not> truthy desiredChainId \<or> desiredChainId = Some (chainId (heap (conn sys1) r))
                       then (Returned (Inr ()), sys1)
                     else
                       (let d = the desiredChainId in
                        if \<not> isConnectedToDesiredChain sess d then
                          (if includes_opt (opt_optionalChains (conn sys1)) d
                             then (Returned (Inl (OptionalChainNotConnected d)), sys1)
                           else (Returned (Inl (UnknownChain d)), sys1))
                        else
                          (ActivateAwaitRequest,
                           upd (call r (SwitchEthereumChain (''0x'' @ toString 16 d))) sys1)))
                | None \<Rightarrow>
                    (ActivateAwaitEnable r,
                     upd (\<lambda>c. call r Enable (act StartActivation c)) sys1))))"
| "continue ActivateAwaitRequest a sys =
     (case a of
        Failed err \<Rightarrow> (Returned (Inl err), sys)
      | _ \<Rightarrow> (Returned (Inr ()), sys))"
| "continue (ActivateAwaitEnable r) a sys =
     (case a of
        Failed err \<Rightarrow> (ActivateAwaitDeactivate err, upd deactivate sys)
      | Enabled sess cid accs \<Rightarrow>
          (Returned (Inr ()),
           upd (\<lambda>c. act (Update (Some (Num cid)) (Some accs))
                  (c\<lparr>heap := (heap c)(r := (heap c r)
                        \<lparr>session := Some sess, chainId := cid, accounts := accs\<rparr>)\<rparr>)) sys)
      | _ \<Rightarrow> (ActivateAwaitEnable r, sys))"
| "continue (ActivateAwaitDeactivate err) a sys = (Returned (Inl err), upd (act CancelActivation) sys)"
| "continue (Returned v) a sys = (Returned v, sys)"

datatype event =
    CallConnectEagerly
  | CallActivate "int option"
  | CallDeactivate
  | Disconnected "string option"
  | ChainChanged string
  | AccountsChanged "string list"
  | DisplayUri string
  | Resume nat answer              \<comment> \<open>the suspended call at this position is resumed\<close>

fun fire :: "event \<Rightarrow> system \<Rightarrow> system" where
  "fire CallConnectEagerly sys =
     (case isomorphicInitialize_call None (upd (act StartActivation) sys) of
        (n, sys1) \<Rightarrow> sys1\<lparr>tasks := tasks sys1 @ [EagerAwaitProvider n]\<rparr>)"
| "fire (CallActivate desiredChainId) sys =
     (case isomorphicInitialize_call desiredChainId sys of
        (n, sys1) \<Rightarrow> sys1\<lparr>tasks := tasks sys1 @ [ActivateAwaitProvider n desiredChainId]\<rparr>)"
| "fire CallDeactivate sys = upd deactivate sys"
| "fire (Disconnected err) sys = upd (disconnectListener_fn err) sys"
| "fire (ChainChanged cid) sys = upd (chainChangedListener_fn cid) sys"
| "fire (AccountsChanged accs) sys = upd (accountsChangedListener_fn accs) sys"
| "fire (DisplayUri uri) sys = upd (URIListener_fn uri) sys"
| "fire (Resume i a) sys =
     (if i < length (tasks sys)
      then (case continue (tasks sys ! i) a sys of
              (t, sys1) \<Rightarrow> sys1\<lparr>tasks := (tasks sys1)[i := t]\<rparr>)
      else sys)"

fun exec :: "event list \<Rightarrow> system \<Rightarrow> system" where
  "exec [] sys = sys"
| "exec (ev # evs) sys = exec evs (fire ev sys)"

text \<open>A connector with nothing memoized and no call under way: the configuration, the
  Providers and the records of \<open>c\<close>, whatever they are.\<close>

definition start :: "'p state \<Rightarrow> system" where
  "start c =
     \<lparr>conn = \<lparr>opt_chains = opt_chains c, opt_optionalChains = opt_optionalChains c,
              defaultChainId = defaultChainId c, has_rpcMap = has_rpcMap c,
              has_onError = has_onError c, provider = provider c, eagerConnection = None,
              heap = heap c, next_ref = next_ref c, actions_log = actions_log c,
              provider_log = provider_log c, emitted = emitted c, reported = reported c,
              init_log = init_log c, constructions = constructions c,
              deactivations = deactivations c\<rparr>,
      settlement = (\<lambda>_. None), tasks = [], handed = [], observed = []\<rparr>"

text \<open>The construction a suspended \<open>initializeProvider\<close> belongs to.\<close>

fun building :: "task \<Rightarrow> nat option" where
  "building (AwaitImport n d) = Some n"
| "building (AwaitUrlMap n d) = Some n"
| "building (AwaitInit n) = Some n"
| "building _ = None"

text \<open>What holds of every system that has grown out of \<open>start\<close>: the memoized promise
  and every promise handed out belong to a construction that was started; a promise handed
  out since the last \<open>deactivate\<close> is the memoized one; every construction has at most
  one suspended \<open>initializeProvider\<close>, and its promise is pending; promises of
  constructions not yet started are pending; what a caller received from a promise is what
  the promise is settled to; and promises handed out between the same two \<open>deactivate\<close>
  calls are one and the same.\<close>

definition coherent :: "system \<Rightarrow> bool" where
  "coherent sys =
     ((\<forall>m. eagerConnection (conn sys) = Some m \<longrightarrow> m < constructions (conn sys))
      \<and> (\<forall>(k, m) \<in> set (handed sys).
            m < constructions (conn sys) \<and> k \<le> deactivations (conn sys)
            \<and> (k = deactivations (conn sys) \<longrightarrow> eagerConnection (conn sys) = Some m))
      \<and> (\<forall>i j n. i < length (tasks sys) \<and> j < length (tasks sys)
            \<and> building (tasks sys ! i) = Some n \<and> building (tasks sys ! j) = Some n \<longrightarrow> i = j)
      \<and> (\<forall>i n. i < length (tasks sys) \<and> building (tasks sys ! i) = Some n \<longrightarrow>
            n < constructions (conn sys) \<and> settlement sys n = None)
      \<and> (\<forall>m. constructions (conn sys) \<le> m \<longrightarrow> settlement sys m = None)
      \<and> (\<forall>(m, v) \<in> set (observed sys). settlement sys m = Some v)
      \<and> (\<forall>(k, m) \<in> set (handed sys). \<forall>(k', m') \<in> set (handed sys). k = k' \<longrightarrow> m = m'))"

section \<open>Properties\<close>

subsection \<open>Hexadecimal strings\<close>

lemma digitChar_value: "k < 16 \<Longrightarrow> hexDigitValue (digitChar k) = Some k"
proof -
  assume "k < 16"
  then have "k = 0 \<or> k = 1 \<or> k = 2 \<or> k = 3 \<or> k = 4 \<or> k = 5 \<or> k = 6 \<or> k = 7 \<or> k = 8
      \<or> k = 9 \<or> k = 10 \<or> k = 11 \<or> k = 12 \<or> k = 13 \<or> k = 14 \<or> k = 15" by arith
  then show ?thesis
    by (elim disjE) (simp_all add: digitChar_def hexDigitValue_def)
qed

lemma hexValue_snoc: "hexValue (z @ [c]) = 16 * hexValue z + the (hexDigitValue c)"
  by (simp add: hexValue_def)

lemma natToString_hex:
  "list_all isHexDigit (natToString 16 n) \<and> natToString 16 n \<noteq> [] \<and> hexValue (natToString 16 n) = n"
proof (induction "16::nat" n rule: natToString.induct)
  case (1 n)
  show ?case
  proof (cases "n < 16")
    case True
    then show ?thesis
      by (simp add: natToString.simps [of 16 n] isHexDigit_def digitChar_value hexValue_def)
  next
    case False
    then have ih: "list_all isHexDigit (natToString 16 (n div 16))"
      "hexValue (natToString 16 (n div 16)) = n div 16"
      using 1 by simp_all
    have d: "hexDigitValue (digitChar (n mod 16)) = Some (n mod 16)"
      by (simp add: digitChar_value)
    show ?thesis using False ih d
      by (simp add: natToString.simps [of 16 n] hexValue_snoc isHexDigit_def)
  qed
qed

lemma takeWhile_all: "list_all P xs \<Longrightarrow> takeWhile P xs = xs"
  by (induction xs) auto

lemma parseInt16_digits:
  assumes "list_all isHexDigit z" "z \<noteq> []"
  shows "parseInt16 (''0x'' @ z) = Num (int (hexValue z))"
    and "parseInt16 z = Num (int (hexValue z))"
proof -
  have nx: "\<not> isHexDigit CHR ''x''" "\<not> isHexDigit CHR ''X''" "\<not> isHexDigit CHR ''-''" "\<not> isHexDigit CHR ''+''"
    by (simp_all add: isHexDigit_def hexDigitValue_def)
  have ws: "\<And>c. isHexDigit c \<Longrightarrow> \<not> isWhiteSpace c"
    by (auto simp: isHexDigit_def hexDigitValue_def isWhiteSpace_def)
  show "parseInt16 (''0x'' @ z) = Num (int (hexValue z))"
    using assms by (simp add: parseInt16_def isWhiteSpace_def takeWhile_all)
  obtain c rest where z: "z = c # rest" using assms(2) by (cases z) auto
  then have c: "isHexDigit c" "list_all isHexDigit rest" using assms(1) by simp_all
  have s0: "dropWhile isWhiteSpace z = z" using z c ws by simp
  have c2: "c \<noteq> CHR ''-''" "c \<noteq> CHR ''+''" using c nx by auto
  show "parseInt16 z = Num (int (hexValue z))"
  proof (cases rest)
    case Nil
    then show ?thesis using z c c2
      by (simp add: parseInt16_def ws)
  next
    case (Cons b r)
    then have "isHexDigit b" using c by simp
    then have b: "b \<noteq> CHR ''x''" "b \<noteq> CHR ''X''" using nx by auto
    have tw: "takeWhile isHexDigit (c # b # r) = c # b # r"
      using c Cons by (simp add: takeWhile_all)
    show ?thesis
      unfolding parseInt16_def Let_def s0 using z Cons c2 b tw by simp
  qed
qed

lemma parseInt16_toString16:
  "parseInt16 (''0x'' @ toString 16 (int n)) = Num (int n)"
  "parseInt16 (toString 16 (int n)) = Num (int n)"
  using parseInt16_digits [of "natToString 16 n"] natToString_hex [of n]
  by (simp_all add: toString_def)

subsection \<open>Chain reordering\<close>

lemma isArrayOneOrMore_reorder:
  "isArrayOneOrMore (reorderChainsBasedOnId L d) = isArrayOneOrMore L"
  by (auto simp: isArrayOneOrMore_def reorderChainsBasedOnId_def getChainsWithDefault_def
      split: option.splits)

text \<open>
  C7, as the code has it. Reordering is the identity when the desired chain id is absent,
  is 0, is not an element of the list, or when the list is absent or empty. When the
  desired chain id is an element of the list and is not 0, the result starts with it and
  goes on with the list without (the first occurrence of) it, in the original order.
  Reordering a second time with the same desired chain id changes nothing.
\<close>

theorem reorderChainsBasedOnId_contract:
  "(d = None \<or> d = Some 0 \<or> L = None \<or> L = Some [] \<or> (\<exists>x cs. d = Some x \<and> L = Some cs \<and> x \<notin> set cs)
      \<longrightarrow> reorderChainsBasedOnId L d = L)
   \<and> (\<forall>x cs. x \<noteq> 0 \<and> x \<in> set cs \<longrightarrow>
         reorderChainsBasedOnId (Some cs) (Some x) = Some (x # remove1 x cs))
   \<and> reorderChainsBasedOnId (reorderChainsBasedOnId L d) d = reorderChainsBasedOnId L d"
  by (auto simp: reorderChainsBasedOnId_def getChainsWithDefault_def split: option.splits)

theorem reorderChainsBasedOnId_contract_witness:
  "(9::int) \<notin> set [1, 5, 7] \<and> reorderChainsBasedOnId (Some [1, 5, 7]) (Some 9) = Some [1, 5, 7]
   \<and> (5::int) \<noteq> 0 \<and> 5 \<in> set [1, 5, 7 :: int]
   \<and> reorderChainsBasedOnId (Some [1, 5, 7]) (Some 5) = Some [5, 1, 7]
   \<and> reorderChainsBasedOnId (reorderChainsBasedOnId (Some [1, 5, 7]) (Some 9)) (Some 9)
       = reorderChainsBasedOnId (Some [1, 5, 7]) (Some 9)"
  using reorderChainsBasedOnId_contract [of "Some 9" "Some [1, 5, 7]"]
  by simp

text \<open>C7 as it is written fails at the desired chain id 0: 0 is an element of the list
  and the result does not start with it.\<close>

theorem reorderChainsBasedOnId_zero_counterexample:
  "(0::int) \<in> set [1, 0] \<and> reorderChainsBasedOnId (Some [1, 0]) (Some 0) = Some [1, 0]
   \<and> hd [1, 0] \<noteq> (0::int)"
  by (simp add: reorderChainsBasedOnId_def)

subsection \<open>The chain-changed listener\<close>

text \<open>
  C3, as the code has it. The listener always reads its payload in radix 16. For every
  chain id \<open>n\<close> (a non-negative integer below \<open>2 ^ 53\<close>, where JavaScript numbers are
  exact) the hexadecimal representation of \<open>n\<close>, with the prefix \<open>0x\<close> or without it, is
  reported to Actions as \<open>update({chainId: n})\<close>, and nothing else changes.
\<close>

theorem chainChangedListener_hex:
  "n < 2 ^ 53 \<Longrightarrow>
     chainChangedListener_fn (''0x'' @ toString 16 (int n)) s
       = s\<lparr>actions_log := actions_log s @ [Update (Some (Num (int n))) None]\<rparr>
   \<and> chainChangedListener_fn (toString 16 (int n)) s
       = s\<lparr>actions_log := actions_log s @ [Update (Some (Num (int n))) None]\<rparr>"
  using parseInt16_toString16 [of n]
  by (simp add: chainChangedListener_fn_def act_def)

theorem chainChangedListener_hex_witness:
  "(56::nat) < 2 ^ 53
   \<and> toString 16 (int 56) = ''38''
   \<and> actions_log (chainChangedListener_fn ''0x38'' (new_connector (Some [1, 56]) None None))
       = [Update (Some (Num 56)) None]"
proof -
  have t: "toString 16 (int 56) = ''38''"
    by (simp add: toString_def natToString.simps digitChar_def)
  have b: "(56::nat) < 2 ^ 53" by simp
  show ?thesis
    using chainChangedListener_hex [OF b, of "new_connector (Some [1, 56]) None None"] t
    by (simp add: new_connector_def)
qed

text \<open>C3 as it is written fails on a decimal payload: the decimal representation
  \<open>56\<close> of the chain id 56 is reported as the chain id 86.\<close>

theorem chainChangedListener_decimal_counterexample:
  "toString 10 56 = ''56''
   \<and> actions_log (chainChangedListener_fn ''56'' (new_connector (Some [1, 56]) None None))
       = [Update (Some (Num 86)) None]
   \<and> actions_log (chainChangedListener_fn ''56'' (new_connector (Some [1, 56]) None None))
       \<noteq> [Update (Some (Num 56)) None]"
  by (simp add: toString_def natToString.simps digitChar_def chainChangedListener_fn_def act_def
      new_connector_def parseInt16_def isWhiteSpace_def isHexDigit_def hexDigitValue_def hexValue_def)

subsection \<open>Chain-set validation\<close>

lemma getChainProps_eq:
  "getChainProps s d =
     (if isArrayOneOrMore (opt_chains s) \<or> isArrayOneOrMore (opt_optionalChains s)
      then Inr \<lparr>props_chains = reorderChainsBasedOnId (opt_chains s) (orDefault d s),
                props_optionalChains = reorderChainsBasedOnId (opt_optionalChains s) (orDefault d s)\<rparr>
      else Inl NoChainsConfigured)"
  by (simp add: getChainProps_def Let_def isArrayOneOrMore_reorder)

text \<open>
  When the endpoint selection that \<open>initializeProvider\<close> awaits first fails, its error is
  the one surfaced, whatever the chain lists are: the chain lists are validated after
  that step, not before it.
\<close>

lemma validation_after_endpoint_selection:
  "import_outcome e = None \<Longrightarrow> has_rpcMap s \<Longrightarrow> urlmap_outcome e = Some err \<Longrightarrow>
     settled (fst (initializeProvider e d s)) = Inl err"
  by (simp add: initializeProvider_def Let_def)

text \<open>
  C2, as the code has it. With no desired chain id (none given and no default): if the
  required list is non-empty the result is the two lists unchanged; else if the optional
  list is non-empty the result is again the two lists unchanged, each under its own name
  (the lists are not swapped); else the configuration error is raised, and
  \<open>initializeProvider\<close>, once the import and the endpoint selection have gone through,
  rejects with it without calling \<open>init\<close> and without creating a Provider. With a
  desired chain id each list is reordered first, which does not change which case applies.
\<close>

theorem getChainProps_validation:
  "(orDefault d s = None \<and> isArrayOneOrMore (opt_chains s) \<longrightarrow>
      getChainProps s d = Inr \<lparr>props_chains = opt_chains s, props_optionalChains = opt_optionalChains s\<rparr>)
   \<and> (orDefault d s = None \<and> \<not> isArrayOneOrMore (opt_chains s) \<and> isArrayOneOrMore (opt_optionalChains s) \<longrightarrow>
      getChainProps s d = Inr \<lparr>props_chains = opt_chains s, props_optionalChains = opt_optionalChains s\<rparr>)
   \<and> (\<not> isArrayOneOrMore (opt_chains s) \<and> \<not> isArrayOneOrMore (opt_optionalChains s) \<longrightarrow>
      getChainProps s d = Inl NoChainsConfigured
      \<and> (import_outcome e = None \<and> (has_rpcMap s \<longrightarrow> urlmap_outcome e = None) \<longrightarrow>
           settled (fst (initializeProvider e d s)) = Inl NoChainsConfigured
           \<and> init_log (snd (initializeProvider e d s)) = init_log s
           \<and> next_ref (snd (initializeProvider e d s)) = next_ref s
           \<and> heap (snd (initializeProvider e d s)) = heap s))
   \<and> (isArrayOneOrMore (opt_chains s) \<or> isArrayOneOrMore (opt_optionalChains s) \<longrightarrow>
      getChainProps s d =
        Inr \<lparr>props_chains = reorderChainsBasedOnId (opt_chains s) (orDefault d s),
             props_optionalChains = reorderChainsBasedOnId (opt_optionalChains s) (orDefault d s)\<rparr>)"
  by (auto simp: getChainProps_eq initializeProvider_def Let_def reorderChainsBasedOnId_def
      split: option.splits)


theorem getChainProps_validation_witness:
  "isArrayOneOrMore (opt_chains (new_connector (Some [1]) (Some []) None))
   \<and> getChainProps (new_connector (Some [1]) (Some []) None) None
       = Inr \<lparr>props_chains = Some [1], props_optionalChains = Some []\<rparr>
   \<and> \<not> isArrayOneOrMore (opt_chains (new_connector (Some []) (Some [1]) None))
   \<and> isArrayOneOrMore (opt_optionalChains (new_connector (Some []) (Some [1]) None))
   \<and> getChainProps (new_connector (Some []) (Some [1]) None) None
       = Inr \<lparr>props_chains = Some [], props_optionalChains = Some [1]\<rparr>
   \<and> \<not> isArrayOneOrMore (opt_chains (new_connector (Some []) (Some []) None))
   \<and> \<not> isArrayOneOrMore (opt_optionalChains (new_connector (Some []) (Some []) None))
   \<and> getChainProps (new_connector (Some []) (Some []) None) None = Inl NoChainsConfigured
   \<and> settled (fst (initializeProvider (world (Inr restored) rejected) None
                     (new_connector (Some []) (Some []) None))) = Inl NoChainsConfigured
   \<and> init_log (snd (initializeProvider (world (Inr restored) rejected) None
                     (new_connector (Some []) (Some []) None))) = []"
  using getChainProps_validation [of None "new_connector (Some [1]) (Some []) None" "world (Inr restored) rejected"]
    getChainProps_validation [of None "new_connector (Some []) (Some [1]) None" "world (Inr restored) rejected"]
    getChainProps_validation [of None "new_connector (Some []) (Some []) None" "world (Inr restored) rejected"]
  by (simp add: new_connector_def orDefault_def isArrayOneOrMore_def world_def)

text \<open>C2 as it is written fails where only the optional list is non-empty: the result
  keeps the empty required list and the optional list in place, it does not swap them.\<close>

theorem getChainProps_swap_counterexample:
  "getChainProps (new_connector (Some []) (Some [1]) None) None
     = Inr \<lparr>props_chains = Some [], props_optionalChains = Some [1]\<rparr>
   \<and> getChainProps (new_connector (Some []) (Some [1]) None) None
     \<noteq> Inr \<lparr>props_chains = Some [1], props_optionalChains = Some []\<rparr>"
  by (simp add: getChainProps_def new_connector_def orDefault_def isArrayOneOrMore_def
      reorderChainsBasedOnId_def)

subsection \<open>Deactivation\<close>

text \<open>
  C9. \<open>deactivate\<close> has no failing branch, whatever the state (with or without a current
  Provider, with or without a memoized construction). After one call, and after a second
  call right behind it, the Provider reference and the memoized handle are cleared and the
  last call on Actions is \<open>resetState()\<close>; the second call touches no Provider.
\<close>

theorem deactivate_idempotent:
  "provider (deactivate s) = None
   \<and> eagerConnection (deactivate s) = None
   \<and> actions_log (deactivate s) = actions_log s @ [ResetState]
   \<and> provider (deactivate (deactivate s)) = None
   \<and> eagerConnection (deactivate (deactivate s)) = None
   \<and> actions_log (deactivate (deactivate s)) = actions_log s @ [ResetState, ResetState]
   \<and> heap (deactivate (deactivate s)) = heap (deactivate s)
   \<and> provider_log (deactivate (deactivate s)) = provider_log (deactivate s)"
  by (simp add: deactivate_def act_def call_def Let_def split: option.split)

subsection \<open>What the construction of a Provider leaves alone\<close>

lemma initializeProvider_cases:
  obtains (rejected) err where "initializeProvider e d s =
        (\<lparr>construction = constructions s, settled = Inl err\<rparr>, s\<lparr>constructions := Suc (constructions s)\<rparr>)"
  | (init_failed) err props where "initializeProvider e d s =
        (\<lparr>construction = constructions s, settled = Inl err\<rparr>,
         s\<lparr>constructions := Suc (constructions s), init_log := init_log s @ [props]\<rparr>)"
  | (built) p props where "init_outcome e = Inr p" "initializeProvider e d s =
        (\<lparr>construction = constructions s, settled = Inr (next_ref s)\<rparr>,
         handleProviderEvents (next_ref s)
           (s\<lparr>constructions := Suc (constructions s), init_log := init_log s @ [props],
              heap := (heap s)(next_ref s := p), next_ref := Suc (next_ref s)\<rparr>))"
proof (cases "import_outcome e")
  case (Some err)
  then show ?thesis using rejected by (simp add: initializeProvider_def Let_def)
next
  case None
  note imp = this
  show ?thesis
  proof (cases "if has_rpcMap s then urlmap_outcome e else None")
    case (Some err)
    then show ?thesis using rejected imp by (simp add: initializeProvider_def Let_def)
  next
    case None
    note url = this
    show ?thesis
    proof (cases "getChainProps s (orDefault d s)")
      case (Inl err)
      then show ?thesis using rejected imp url by (simp add: initializeProvider_def Let_def)
    next
      case (Inr props)
      note pr = this
      show ?thesis
      proof (cases "init_outcome e")
        case (Inl err)
        then show ?thesis using init_failed imp url pr by (simp add: initializeProvider_def Let_def)
      next
        case (Inr p)
        then show ?thesis using built [of p props] imp url pr
          by (simp add: initializeProvider_def Let_def)
      qed
    qed
  qed
qed

lemma initializeProvider_frame:
  assumes "initializeProvider e d s = (h, s1)"
  shows "actions_log s1 = actions_log s" "provider_log s1 = provider_log s"
    "provider s1 = provider s" "eagerConnection s1 = eagerConnection s"
    "opt_chains s1 = opt_chains s" "opt_optionalChains s1 = opt_optionalChains s"
    "deactivations s1 = deactivations s" "constructions s1 = Suc (constructions s)"
    "construction h = constructions s"
  using assms
  by (cases rule: initializeProvider_cases [of e d s]; simp add: handleProviderEvents_def; fastforce)+

lemma isomorphicInitialize_cases:
  obtains (memoized) h where "eagerConnection s = Some h" "isomorphicInitialize e d s = (h, s)"
  | (started) h s1 where "eagerConnection s = None"
      "initializeProvider e (orDefault d s) s = (h, s1)"
      "isomorphicInitialize e d s = (h, s1\<lparr>eagerConnection := Some h\<rparr>)"
proof (cases "eagerConnection s")
  case None
  then show ?thesis
    using started [of "fst (initializeProvider e (orDefault d s) s)" "snd (initializeProvider e (orDefault d s) s)"]
    by (simp add: isomorphicInitialize_def split: prod.splits)
next
  case (Some h)
  then show ?thesis using memoized by (simp add: isomorphicInitialize_def)
qed

lemma isomorphicInitialize_frame:
  assumes "isomorphicInitialize e d s = (h, s1)"
  shows "actions_log s1 = actions_log s \<and> provider_log s1 = provider_log s \<and>
      provider s1 = provider s \<and> eagerConnection s1 = Some h \<and>
      opt_chains s1 = opt_chains s \<and> opt_optionalChains s1 = opt_optionalChains s \<and>
      deactivations s1 = deactivations s"
proof (cases rule: isomorphicInitialize_cases [of s e d])
  case (memoized h')
  then show ?thesis using assms by simp
next
  case (started h' s')
  then show ?thesis
    using assms initializeProvider_frame [OF started(2)] by auto
qed

subsection \<open>Activation against an existing session\<close>

text \<open>
  C8. Let \<open>activate(desiredChainId)\<close> obtain its Provider (the memoized one, or one built
  now) and let that Provider have a session. If \<open>desiredChainId\<close> is absent or equals the
  Provider's current chain id, \<open>activate\<close> returns successfully in the very state in which
  it obtained the Provider: no call has been made on Actions and none on any Provider.
\<close>

theorem activate_noop:
  assumes "isomorphicInitialize e d s = (h, s1)"
    and "settled h = Inr r"
    and "session (heap s1 r) = Some sess"
    and "d = None \<or> d = Some (chainId (heap s1 r))"
  shows "activate e d s = (Inr (), s1)
    \<and> actions_log s1 = actions_log s \<and> provider_log s1 = provider_log s"
  using assms isomorphicInitialize_frame [OF assms(1)]
  by (auto simp: activate_def truthy_def)


lemmas run_defs =
  isomorphicInitialize_def initializeProvider_def getChainProps_def orDefault_def
  reorderChainsBasedOnId_def getChainsWithDefault_def isArrayOneOrMore_def
  handleProviderEvents_def on_def new_connector_def world_def restored_def sessionless_def
  rejected_def Let_def

theorem activate_noop_witness:
  "settled (fst (isomorphicInitialize (world (Inr restored) rejected) (Some 1)
                   (new_connector (Some [1, 5]) None None))) = Inr 0
   \<and> session (heap (snd (isomorphicInitialize (world (Inr restored) rejected) (Some 1)
                   (new_connector (Some [1, 5]) None None))) 0) = Some [''eip155:1:0xabc'']
   \<and> chainId (heap (snd (isomorphicInitialize (world (Inr restored) rejected) (Some 1)
                   (new_connector (Some [1, 5]) None None))) 0) = 1
   \<and> fst (activate (world (Inr restored) rejected) (Some 1) (new_connector (Some [1, 5]) None None))
       = Inr ()
   \<and> actions_log (snd (activate (world (Inr restored) rejected) (Some 1)
                   (new_connector (Some [1, 5]) None None))) = []
   \<and> provider_log (snd (activate (world (Inr restored) rejected) (Some 1)
                   (new_connector (Some [1, 5]) None None))) = []"
proof -
  let ?e = "world (Inr restored) rejected"
  let ?s = "new_connector (Some [1, 5]) None None"
  let ?i = "isomorphicInitialize ?e (Some 1) ?s"
  have i: "?i = (fst ?i, snd ?i)" by simp
  have a: "settled (fst ?i) = Inr 0" by (simp add: run_defs)
  have b: "session (heap (snd ?i) 0) = Some [''eip155:1:0xabc'']" by (simp add: run_defs)
  have c: "chainId (heap (snd ?i) 0) = 1" by (simp add: run_defs)
  have l: "actions_log ?s = []" "provider_log ?s = []" by (simp_all add: new_connector_def)
  have "Some (1::int) = None \<or> Some 1 = Some (chainId (heap (snd ?i) 0))" using c by simp
  from activate_noop [OF i a b this] a b c l show ?thesis by simp
qed

text \<open>
  C10, as the code has it. A desired chain id of 0 fails the two truthiness tests:
  \<open>reorderChainsBasedOnId\<close> returns the list as it is, also when 0 is an element of it,
  and \<open>activate(0)\<close> on a Provider with a session returns successfully in the state in
  which it obtained the Provider, with no call made on any Provider, whatever the
  Provider's current chain id. It is not taken for absent by the default parameters: 0
  is not replaced by \<open>defaultChainId\<close>, so that with 0 the chain lists go to \<open>init\<close> in
  their configured order, whatever \<open>defaultChainId\<close> is.
\<close>

theorem zero_chain_id_is_falsy:
  "reorderChainsBasedOnId L (Some 0) = L
   \<and> (isomorphicInitialize e (Some 0) s = (h, s1) \<and> settled h = Inr r
        \<and> session (heap s1 r) = Some sess \<longrightarrow>
      activate e (Some 0) s = (Inr (), s1) \<and> provider_log s1 = provider_log s)
   \<and> orDefault (Some 0) s = Some 0
   \<and> getChainProps s (Some 0) =
        (if isArrayOneOrMore (opt_chains s) \<or> isArrayOneOrMore (opt_optionalChains s)
         then Inr \<lparr>props_chains = opt_chains s, props_optionalChains = opt_optionalChains s\<rparr>
         else Inl NoChainsConfigured)"
proof -
  have 1: "reorderChainsBasedOnId L (Some 0) = L"
    by (simp add: reorderChainsBasedOnId_def split: option.split)
  have 2: "isomorphicInitialize e (Some 0) s = (h, s1) \<and> settled h = Inr r
        \<and> session (heap s1 r) = Some sess \<longrightarrow>
      activate e (Some 0) s = (Inr (), s1) \<and> provider_log s1 = provider_log s"
    using isomorphicInitialize_frame [of e "Some 0" s h s1]
    by (auto simp: activate_def truthy_def)
  have 3: "orDefault (Some 0) s = Some 0" by (simp add: orDefault_def)
  have r: "\<And>M. reorderChainsBasedOnId M (Some 0) = M"
    by (simp add: reorderChainsBasedOnId_def split: option.split)
  have 4: "getChainProps s (Some 0) =
        (if isArrayOneOrMore (opt_chains s) \<or> isArrayOneOrMore (opt_optionalChains s)
         then Inr \<lparr>props_chains = opt_chains s, props_optionalChains = opt_optionalChains s\<rparr>
         else Inl NoChainsConfigured)"
    by (simp add: getChainProps_eq 3 r)
  show ?thesis by (rule conjI [OF 1 conjI [OF 2 conjI [OF 3 4]]])
qed

theorem zero_chain_id_is_falsy_witness:
  "(0::int) \<in> set [1, 0]
   \<and> reorderChainsBasedOnId (Some [1, 0]) (Some 0) = Some [1, 0]
   \<and> settled (fst (isomorphicInitialize (world (Inr restored) rejected) (Some 0)
                   (new_connector (Some [1, 0]) None None))) = Inr 0
   \<and> session (heap (snd (isomorphicInitialize (world (Inr restored) rejected) (Some 0)
                   (new_connector (Some [1, 0]) None None))) 0) = Some [''eip155:1:0xabc'']
   \<and> chainId (heap (snd (isomorphicInitialize (world (Inr restored) rejected) (Some 0)
                   (new_connector (Some [1, 0]) None None))) 0) \<noteq> 0
   \<and> fst (activate (world (Inr restored) rejected) (Some 0) (new_connector (Some [1, 0]) None None))
       = Inr ()
   \<and> provider_log (snd (activate (world (Inr restored) rejected) (Some 0)
                   (new_connector (Some [1, 0]) None None))) = []
   \<and> getChainProps (new_connector (Some [1, 0]) None None) (Some 0)
       = Inr \<lparr>props_chains = Some [1, 0], props_optionalChains = None\<rparr>"
proof -
  let ?e = "world (Inr restored) rejected"
  let ?s = "new_connector (Some [1, 0]) None None"
  let ?i = "isomorphicInitialize ?e (Some 0) ?s"
  have i: "?i = (fst ?i, snd ?i)" by simp
  have a: "settled (fst ?i) = Inr 0" by (simp add: run_defs)
  have b: "session (heap (snd ?i) 0) = Some [''eip155:1:0xabc'']" by (simp add: run_defs)
  have c: "chainId (heap (snd ?i) 0) \<noteq> 0" by (simp add: run_defs)
  have l: "provider_log ?s = []" by (simp add: new_connector_def)
  have g: "opt_chains ?s = Some [1, 0]" "opt_optionalChains ?s = None"
    "isArrayOneOrMore (Some [1, 0])"
    by (simp_all add: new_connector_def isArrayOneOrMore_def)
  from zero_chain_id_is_falsy [of "Some [1, 0]" ?e ?s "fst ?i" "snd ?i" 0 "[''eip155:1:0xabc'']"]
    a b c l g show ?thesis by simp
qed

text \<open>C10 as it is written fails where a default chain id is configured: with
  \<open>chains = [1, 5]\<close> and \<open>defaultChainId = 5\<close>, \<open>activate(0)\<close> hands \<open>init\<close> the chains
  in the order \<open>[1, 5]\<close>, while \<open>activate()\<close> hands it \<open>[5, 1]\<close>. The default
  parameters replace \<open>undefined\<close> only.\<close>

theorem zero_is_not_absent_counterexample:
  "init_log (snd (activate (world (Inr restored) rejected) (Some 0)
       (new_connector (Some [1, 5]) None (Some 5))))
     = [\<lparr>props_chains = Some [1, 5], props_optionalChains = None\<rparr>]
   \<and> init_log (snd (activate (world (Inr restored) rejected) None
       (new_connector (Some [1, 5]) None (Some 5))))
     = [\<lparr>props_chains = Some [5, 1], props_optionalChains = None\<rparr>]"
  by (simp add: activate_def run_defs truthy_def)









subsection \<open>Failure of the session-establishing step\<close>

text \<open>
  What the two catch blocks do. When \<open>connectEagerly()\<close> obtains a Provider that has no session, and when
  \<open>activate()\<close> obtains a Provider without a session whose \<open>enable()\<close> throws, the
  operation runs \<open>deactivate()\<close> on the state reached so far, then calls the cancel
  function of the activation, and returns the error (\<open>NoActiveSession\<close>, respectively the
  very error \<open>enable()\<close> threw). Afterwards the Provider reference and the memoized handle
  are cleared, and the calls made on Actions are \<open>startActivation()\<close>, \<open>resetState()\<close>
  and the cancel function, in this order.
\<close>

lemma session_failure_cleanup:
  "(isomorphicInitialize e None (act StartActivation s) = (h, s1) \<and> settled h = Inr r
      \<and> session (heap s1 r) = None \<longrightarrow>
      connectEagerly e s = (Inl NoActiveSession, act CancelActivation (deactivate s1))
      \<and> provider (snd (connectEagerly e s)) = None
      \<and> eagerConnection (snd (connectEagerly e s)) = None
      \<and> actions_log (snd (connectEagerly e s))
          = actions_log s @ [StartActivation, ResetState, CancelActivation])
   \<and> (isomorphicInitialize e' d s' = (h', s1') \<and> settled h' = Inr r'
      \<and> session (heap s1' r') = None \<and> enable_outcome e' = Inl err \<longrightarrow>
      activate e' d s'
        = (Inl err, act CancelActivation (deactivate (call r' Enable (act StartActivation s1'))))
      \<and> provider (snd (activate e' d s')) = None
      \<and> eagerConnection (snd (activate e' d s')) = None
      \<and> actions_log (snd (activate e' d s'))
          = actions_log s' @ [StartActivation, ResetState, CancelActivation])"
proof -
  have 1: "connectEagerly e s = (Inl NoActiveSession, act CancelActivation (deactivate s1))
      \<and> provider (snd (connectEagerly e s)) = None
      \<and> eagerConnection (snd (connectEagerly e s)) = None
      \<and> actions_log (snd (connectEagerly e s))
          = actions_log s @ [StartActivation, ResetState, CancelActivation]"
    if i: "isomorphicInitialize e None (act StartActivation s) = (h, s1)"
      and "settled h = Inr r" "session (heap s1 r) = None"
  proof -
    have c: "connectEagerly e s = (Inl NoActiveSession, act CancelActivation (deactivate s1))"
      using that by (simp add: connectEagerly_def)
    have l: "actions_log s1 = actions_log s @ [StartActivation]"
      using isomorphicInitialize_frame [OF i] by (simp add: act_def)
    show ?thesis unfolding c using l
      by (simp add: deactivate_def act_def call_def split: option.split)
  qed
  have 2: "activate e' d s'
        = (Inl err, act CancelActivation (deactivate (call r' Enable (act StartActivation s1'))))
      \<and> provider (snd (activate e' d s')) = None
      \<and> eagerConnection (snd (activate e' d s')) = None
      \<and> actions_log (snd (activate e' d s'))
          = actions_log s' @ [StartActivation, ResetState, CancelActivation]"
    if i: "isomorphicInitialize e' d s' = (h', s1')"
      and "settled h' = Inr r'" "session (heap s1' r') = None" "enable_outcome e' = Inl err"
  proof -
    have c: "activate e' d s'
        = (Inl err, act CancelActivation (deactivate (call r' Enable (act StartActivation s1'))))"
      using that by (simp add: activate_def)
    have l: "actions_log s1' = actions_log s'"
      using isomorphicInitialize_frame [OF i] by simp
    show ?thesis unfolding c using l
      by (simp add: deactivate_def act_def call_def split: option.split)
  qed
  from 1 2 show ?thesis by blast
qed


lemma session_failure_cleanup_example:
  "settled (fst (isomorphicInitialize (world (Inr sessionless) rejected) None
        (act StartActivation (new_connector (Some [1]) None None)))) = Inr 0
   \<and> session (heap (snd (isomorphicInitialize (world (Inr sessionless) rejected) None
        (act StartActivation (new_connector (Some [1]) None None)))) 0) = None
   \<and> fst (connectEagerly (world (Inr sessionless) rejected) (new_connector (Some [1]) None None))
       = Inl NoActiveSession
   \<and> eagerConnection (snd (connectEagerly (world (Inr sessionless) rejected)
        (new_connector (Some [1]) None None))) = None
   \<and> actions_log (snd (connectEagerly (world (Inr sessionless) rejected)
        (new_connector (Some [1]) None None))) = [StartActivation, ResetState, CancelActivation]
   \<and> settled (fst (isomorphicInitialize (world (Inr sessionless) rejected) None
        (new_connector (Some [1]) None None))) = Inr 0
   \<and> session (heap (snd (isomorphicInitialize (world (Inr sessionless) rejected) None
        (new_connector (Some [1]) None None))) 0) = None
   \<and> enable_outcome (world (Inr sessionless) rejected) = Inl (ExternalFailure ''User rejected'')
   \<and> fst (activate (world (Inr sessionless) rejected) None (new_connector (Some [1]) None None))
       = Inl (ExternalFailure ''User rejected'')
   \<and> eagerConnection (snd (activate (world (Inr sessionless) rejected) None
        (new_connector (Some [1]) None None))) = None
   \<and> actions_log (snd (activate (world (Inr sessionless) rejected) None
        (new_connector (Some [1]) None None))) = [StartActivation, ResetState, CancelActivation]"
proof -
  let ?e = "world (Inr sessionless) rejected"
  let ?s = "new_connector (Some [1]) None None"
  let ?i = "isomorphicInitialize ?e None (act StartActivation ?s)"
  let ?j = "isomorphicInitialize ?e None ?s"
  have i: "?i = (fst ?i, snd ?i)" and j: "?j = (fst ?j, snd ?j)" by simp_all
  have a: "settled (fst ?i) = Inr 0" "settled (fst ?j) = Inr 0"
    by (simp_all add: run_defs act_def)
  have b: "session (heap (snd ?i) 0) = None" "session (heap (snd ?j) 0) = None"
    by (simp_all add: run_defs act_def)
  have c: "enable_outcome ?e = Inl (ExternalFailure ''User rejected'')"
    by (simp add: world_def rejected_def)
  have l: "actions_log ?s = []" by (simp add: new_connector_def)
  note t = session_failure_cleanup [of ?e ?s "fst ?i" "snd ?i" 0 ?e None ?s "fst ?j" "snd ?j" 0
      "ExternalFailure ''User rejected''"]
  note t1 = t [THEN conjunct1, THEN mp, OF conjI [OF i conjI [OF a(1) b(1)]]]
  note t2 = t [THEN conjunct2, THEN mp, OF conjI [OF j conjI [OF a(2) conjI [OF b(2) c]]]]
  have f1: "fst (connectEagerly ?e ?s) = Inl NoActiveSession"
    using t1 [THEN conjunct1] by simp
  have f2: "fst (activate ?e None ?s) = Inl (ExternalFailure ''User rejected'')"
    using t2 [THEN conjunct1] by simp
  show ?thesis
    using f1 f2 t1 [THEN conjunct2] t2 [THEN conjunct2] a b c l by simp
qed

text \<open>
  C5 fails on the code, by the defect of C1. A connector with \<open>chains = [1]\<close>; \<open>init\<close>
  returns a Provider without a session, which gets address 0 and the four listeners.
  \<open>connectEagerly()\<close> fails with \<open>NoActiveSession\<close>, and \<open>activate()\<close> fails with the
  error \<open>enable()\<close> threw. After either failure the four listeners are still registered
  on that Provider and \<open>disconnect()\<close> has not been called on it: the \<open>deactivate()\<close>
  of the catch block found \<open>this.provider\<close> absent.
\<close>

theorem session_failure_leaves_listeners:
  "settled (fst (isomorphicInitialize (world (Inr sessionless) rejected) None
        (new_connector (Some [1]) None None))) = Inr 0
   \<and> fst (connectEagerly (world (Inr sessionless) rejected) (new_connector (Some [1]) None None))
       = Inl NoActiveSession
   \<and> listeners (heap (snd (connectEagerly (world (Inr sessionless) rejected)
        (new_connector (Some [1]) None None))) 0)
       = [(''disconnect'', disconnectListener), (''chainChanged'', chainChangedListener),
          (''accountsChanged'', accountsChangedListener), (''display_uri'', URIListener)]
   \<and> provider_log (snd (connectEagerly (world (Inr sessionless) rejected)
        (new_connector (Some [1]) None None))) = []
   \<and> fst (activate (world (Inr sessionless) rejected) None (new_connector (Some [1]) None None))
       = Inl (ExternalFailure ''User rejected'')
   \<and> listeners (heap (snd (activate (world (Inr sessionless) rejected) None
        (new_connector (Some [1]) None None))) 0)
       = [(''disconnect'', disconnectListener), (''chainChanged'', chainChangedListener),
          (''accountsChanged'', accountsChangedListener), (''display_uri'', URIListener)]
   \<and> provider_log (snd (activate (world (Inr sessionless) rejected) None
        (new_connector (Some [1]) None None))) = [(0, Enable)]"
proof -
  let ?e = "world (Inr sessionless) rejected"
  let ?s = "new_connector (Some [1]) None None"
  let ?i = "isomorphicInitialize ?e None (act StartActivation ?s)"
  let ?j = "isomorphicInitialize ?e None ?s"
  let ?four = "[(''disconnect'', disconnectListener), (''chainChanged'', chainChangedListener),
          (''accountsChanged'', accountsChangedListener), (''display_uri'', URIListener)]"
  have i: "?i = (fst ?i, snd ?i)" and j: "?j = (fst ?j, snd ?j)" by simp_all
  have a: "settled (fst ?i) = Inr 0" "settled (fst ?j) = Inr 0"
    by (simp_all add: run_defs act_def)
  have b: "session (heap (snd ?i) 0) = None" "session (heap (snd ?j) 0) = None"
    by (simp_all add: run_defs act_def)
  have c: "enable_outcome ?e = Inl (ExternalFailure ''User rejected'')"
    by (simp add: world_def rejected_def)
  have p: "provider (snd ?i) = None" "provider_log (snd ?i) = []" "listeners (heap (snd ?i) 0) = ?four"
    "provider (snd ?j) = None" "provider_log (snd ?j) = []" "listeners (heap (snd ?j) 0) = ?four"
    by (simp_all add: run_defs act_def)
  note t = session_failure_cleanup [of ?e ?s "fst ?i" "snd ?i" 0 ?e None ?s "fst ?j" "snd ?j" 0
      "ExternalFailure ''User rejected''"]
  note t1 = t [THEN conjunct1, THEN mp, OF conjI [OF i conjI [OF a(1) b(1)]], THEN conjunct1]
  note t2 = t [THEN conjunct2, THEN mp, OF conjI [OF j conjI [OF a(2) conjI [OF b(2) c]]],
      THEN conjunct1]
  show ?thesis
    unfolding t1 t2 using a(2) p
    by (simp add: deactivate_def act_def call_def Let_def)
qed

theorem session_failure_leaves_listeners_witness:
  "length (listeners (heap (snd (connectEagerly (world (Inr sessionless) rejected)
        (new_connector (Some [1]) None None))) 0)) = 4
   \<and> length (listeners (heap (snd (activate (world (Inr sessionless) rejected) None
        (new_connector (Some [1]) None None))) 0)) = 4
   \<and> (0, Disconnect) \<notin> set (provider_log (snd (activate (world (Inr sessionless) rejected) None
        (new_connector (Some [1]) None None))))"
  using session_failure_leaves_listeners by simp

subsection \<open>Single-flight construction, one operation after the other\<close>

lemma isomorphicInitialize_bookkeeping:
  assumes "isomorphicInitialize e d s = (h, s1)"
  shows "deactivations s1 = deactivations s \<and> eagerConnection s1 = Some h
    \<and> (\<forall>h'. eagerConnection s = Some h' \<longrightarrow> h = h' \<and> s1 = s)
    \<and> (eagerConnection s = None \<longrightarrow>
          constructions s1 = Suc (constructions s) \<and> construction h = constructions s)"
proof (cases rule: isomorphicInitialize_cases [of s e d])
  case (memoized h')
  then show ?thesis using assms by simp
next
  case (started h' s')
  then show ?thesis
    using assms initializeProvider_frame [OF started(2)] by auto
qed

lemma deactivate_bookkeeping:
  "constructions (deactivate s) = constructions s
   \<and> deactivations (deactivate s) = Suc (deactivations s)
   \<and> eagerConnection (deactivate s) = None \<and> provider (deactivate s) = None"
  by (simp add: deactivate_def act_def call_def split: option.split)

lemma act_bookkeeping [simp]:
  "constructions (act c s) = constructions s" "deactivations (act c s) = deactivations s"
  "eagerConnection (act c s) = eagerConnection s" "provider (act c s) = provider s"
  by (simp_all add: act_def)

lemma call_bookkeeping [simp]:
  "constructions (call r c s) = constructions s" "deactivations (call r c s) = deactivations s"
  "eagerConnection (call r c s) = eagerConnection s" "provider (call r c s) = provider s"
  by (simp_all add: call_def)

lemma activate_after:
  assumes "isomorphicInitialize e d s = (h, s1)"
  shows "(constructions (snd (activate e d s)) = constructions s1
      \<and> deactivations (snd (activate e d s)) = deactivations s1
      \<and> eagerConnection (snd (activate e d s)) = eagerConnection s1)
    \<or> (constructions (snd (activate e d s)) = constructions s1
      \<and> deactivations (snd (activate e d s)) = Suc (deactivations s1)
      \<and> eagerConnection (snd (activate e d s)) = None)"
  using assms
  by (simp add: activate_def Let_def deactivate_bookkeeping
      split: sum.split option.split prod.split)

lemma connectEagerly_after:
  assumes "isomorphicInitialize e None (act StartActivation s) = (h, s1)"
  shows "(constructions (snd (connectEagerly e s)) = constructions s1
      \<and> deactivations (snd (connectEagerly e s)) = deactivations s1
      \<and> eagerConnection (snd (connectEagerly e s)) = eagerConnection s1)
    \<or> (constructions (snd (connectEagerly e s)) = constructions s1
      \<and> deactivations (snd (connectEagerly e s)) = Suc (deactivations s1)
      \<and> eagerConnection (snd (connectEagerly e s)) = None)"
  using assms
  by (simp add: connectEagerly_def Let_def deactivate_bookkeeping
      split: sum.split option.split prod.split)


text \<open>What one operation does to the three things single-flight is about: either
  \<open>deactivate\<close> was not entered, and then a construction was started exactly when the
  handle went from absent to present, and a present handle stayed what it was; or
  \<open>deactivate\<close> was entered once, the handle is absent afterwards, and at most one
  construction was started, and only if the handle was absent before.\<close>

lemma perform_bookkeeping:
  "(deactivations (perform x s) = deactivations s
      \<and> constructions (perform x s)
          = constructions s + (if eagerConnection s = None \<and> eagerConnection (perform x s) \<noteq> None then 1 else 0)
      \<and> (\<forall>h. eagerConnection s = Some h \<longrightarrow> eagerConnection (perform x s) = Some h))
   \<or> (deactivations (perform x s) = Suc (deactivations s)
      \<and> eagerConnection (perform x s) = None
      \<and> constructions (perform x s)
          \<le> constructions s + (if eagerConnection s = None then 1 else 0))"
proof (cases x)
  case (ConnectEagerly e)
  let ?s0 = "act StartActivation s"
  obtain h s1 where i: "isomorphicInitialize e None ?s0 = (h, s1)" by force
  show ?thesis
    using connectEagerly_after [OF i] isomorphicInitialize_bookkeeping [OF i] ConnectEagerly
    by (cases "eagerConnection s") auto
next
  case (Activate e d)
  obtain h s1 where i: "isomorphicInitialize e d s = (h, s1)" by force
  show ?thesis
    using activate_after [OF i] isomorphicInitialize_bookkeeping [OF i] Activate
    by (cases "eagerConnection s") auto
next
  case Deactivate
  then show ?thesis using deactivate_bookkeeping [of s] by simp
next
  case (OnDisconnect err)
  then show ?thesis
    by (cases "eagerConnection s")
      (simp_all add: disconnectListener_fn_def Let_def act_def split: option.split)
next
  case (OnChainChanged cid)
  then show ?thesis by (cases "eagerConnection s") (simp_all add: chainChangedListener_fn_def)
next
  case (OnAccountsChanged accs)
  then show ?thesis by (cases "eagerConnection s") (simp_all add: accountsChangedListener_fn_def)
next
  case (OnDisplayUri uri)
  then show ?thesis by (cases "eagerConnection s") (simp_all add: URIListener_fn_def)
qed

lemma perform_deactivations_mono: "deactivations s \<le> deactivations (perform x s)"
  using perform_bookkeeping [of x s] by auto

lemma run_deactivations_mono: "deactivations s \<le> deactivations (run xs s)"
proof (induction xs arbitrary: s)
  case Nil
  show ?case by simp
next
  case (Cons x xs)
  show ?case
    using perform_deactivations_mono [of s x] Cons [of "perform x s"] by simp
qed

lemma run_keeps_handle:
  "deactivations (run xs s) = deactivations s \<Longrightarrow> eagerConnection s = Some h \<Longrightarrow>
     eagerConnection (run xs s) = Some h \<and> constructions (run xs s) = constructions s"
proof (induction xs arbitrary: s)
  case Nil
  then show ?case by simp
next
  case (Cons x xs)
  have "deactivations s \<le> deactivations (perform x s)"
    "deactivations (perform x s) \<le> deactivations (run xs (perform x s))"
    by (rule perform_deactivations_mono, rule run_deactivations_mono)
  then have d: "deactivations (perform x s) = deactivations s"
    "deactivations (run xs (perform x s)) = deactivations (perform x s)"
    using Cons.prems(1) by simp_all
  have k: "eagerConnection (perform x s) = Some h \<and> constructions (perform x s) = constructions s"
    using perform_bookkeeping [of x s] d(1) Cons.prems(2) by auto
  show ?case using Cons.IH [OF d(2)] k by simp
qed

lemma run_constructions_bound:
  "int (constructions (run xs s)) + (if eagerConnection (run xs s) = None then 1 else 0)
     \<le> int (constructions s) + (if eagerConnection s = None then 1 else 0)
        + (int (deactivations (run xs s)) - int (deactivations s))"
proof (induction xs arbitrary: s)
  case Nil
  show ?case by simp
next
  case (Cons x xs)
  have "int (constructions (perform x s)) + (if eagerConnection (perform x s) = None then 1 else 0)
     \<le> int (constructions s) + (if eagerConnection s = None then 1 else 0)
        + (int (deactivations (perform x s)) - int (deactivations s))"
    using perform_bookkeeping [of x s] by (auto split: if_splits)
  then show ?case using Cons [of "perform x s"] by simp
qed


text \<open>
  Operations taken one after the other, each to its end. (1) While a memoized handle
  exists, \<open>isomorphicInitialize\<close> returns that handle and changes nothing. (2) Without a
  handle it starts exactly one construction and memoizes its promise. (3) Over any
  sequence of operations during which \<open>deactivate\<close> is not entered, an existing handle
  stays in place and no construction is started. (4) The constructions started are at most
  the number of times \<open>deactivate\<close> was entered, plus one if there was no handle at the
  start. (5) \<open>deactivate\<close> clears the handle.
\<close>

lemma single_flight_sequential:
  "(eagerConnection s = Some h \<longrightarrow> isomorphicInitialize e d s = (h, s))
   \<and> (eagerConnection s = None \<longrightarrow>
        construction (fst (isomorphicInitialize e d s)) = constructions s
        \<and> constructions (snd (isomorphicInitialize e d s)) = Suc (constructions s)
        \<and> eagerConnection (snd (isomorphicInitialize e d s)) = Some (fst (isomorphicInitialize e d s)))
   \<and> (eagerConnection s = Some h \<and> deactivations (run xs s) = deactivations s \<longrightarrow>
        constructions (run xs s) = constructions s
        \<and> isomorphicInitialize e' d' (run xs s) = (h, run xs s))
   \<and> constructions (run xs s) + deactivations s
        \<le> constructions s + (if eagerConnection s = None then 1 else 0) + deactivations (run xs s)
   \<and> eagerConnection (deactivate s) = None"
proof -
  obtain h1 s1 where i: "isomorphicInitialize e d s = (h1, s1)" by force
  have 1: "eagerConnection s = Some h \<longrightarrow> isomorphicInitialize e d s = (h, s)"
    by (simp add: isomorphicInitialize_def)
  have 2: "eagerConnection s = None \<longrightarrow>
        construction (fst (isomorphicInitialize e d s)) = constructions s
        \<and> constructions (snd (isomorphicInitialize e d s)) = Suc (constructions s)
        \<and> eagerConnection (snd (isomorphicInitialize e d s)) = Some (fst (isomorphicInitialize e d s))"
    using isomorphicInitialize_bookkeeping [OF i] i by simp
  have 3: "eagerConnection s = Some h \<and> deactivations (run xs s) = deactivations s \<longrightarrow>
        constructions (run xs s) = constructions s
        \<and> isomorphicInitialize e' d' (run xs s) = (h, run xs s)"
    using run_keeps_handle [of xs s h] by (simp add: isomorphicInitialize_def)
  have 4: "constructions (run xs s) + deactivations s
        \<le> constructions s + (if eagerConnection s = None then 1 else 0) + deactivations (run xs s)"
    using run_constructions_bound [of xs s] run_deactivations_mono [of s xs]
    by (simp split: if_splits)
  have 5: "eagerConnection (deactivate s) = None"
    by (simp add: deactivate_bookkeeping)
  from 1 2 3 4 5 show ?thesis by blast
qed

lemma single_flight_sequential_example:
  "eagerConnection (run [Activate (world (Inr restored) rejected) None] (new_connector (Some [1]) None None))
     = Some \<lparr>construction = 0, settled = Inr 0\<rparr>
   \<and> fst (isomorphicInitialize (world (Inr sessionless) rejected) (Some 1)
        (run [Activate (world (Inr restored) rejected) None] (new_connector (Some [1]) None None)))
     = \<lparr>construction = 0, settled = Inr 0\<rparr>
   \<and> deactivations (run [OnChainChanged ''0x1'', Activate (world (Inr sessionless) rejected) None, OnDisplayUri ''wc:1'']
        (run [Activate (world (Inr restored) rejected) None] (new_connector (Some [1]) None None)))
     = deactivations (run [Activate (world (Inr restored) rejected) None] (new_connector (Some [1]) None None))
   \<and> constructions (run [OnChainChanged ''0x1'', Activate (world (Inr sessionless) rejected) None, OnDisplayUri ''wc:1'']
        (run [Activate (world (Inr restored) rejected) None] (new_connector (Some [1]) None None)))
     = 1
   \<and> fst (isomorphicInitialize (world (Inr sessionless) rejected) None
        (run [OnChainChanged ''0x1'', Activate (world (Inr sessionless) rejected) None, OnDisplayUri ''wc:1'']
          (run [Activate (world (Inr restored) rejected) None] (new_connector (Some [1]) None None))))
     = \<lparr>construction = 0, settled = Inr 0\<rparr>
   \<and> eagerConnection (new_connector (Some [1]) None None) = None
   \<and> constructions (snd (isomorphicInitialize (world (Inr restored) rejected) None
        (new_connector (Some [1]) None None))) = 1
   \<and> constructions (run [Activate (world (Inr restored) rejected) None, Deactivate,
        Activate (world (Inr restored) rejected) None] (new_connector (Some [1]) None None)) = 2
   \<and> deactivations (run [Activate (world (Inr restored) rejected) None, Deactivate,
        Activate (world (Inr restored) rejected) None] (new_connector (Some [1]) None None)) = 1"
proof -
  let ?E = "world (Inr restored) rejected"
  let ?F = "world (Inr sessionless) rejected"
  let ?s0 = "new_connector (Some [1]) None None"
  let ?S = "run [Activate ?E None] ?s0"
  let ?H = "\<lparr>construction = 0, settled = Inr 0\<rparr>"
  let ?xs = "[OnChainChanged ''0x1'', Activate ?F None, OnDisplayUri ''wc:1'']"
  let ?ys = "[Activate ?E None, Deactivate, Activate ?E None]"
  have a: "eagerConnection ?S = Some ?H" "constructions ?S = 1" "deactivations ?S = 0"
    by (simp_all add: activate_def run_defs truthy_def)
  have b: "eagerConnection ?s0 = None" "constructions ?s0 = 0" "deactivations ?s0 = 0"
    by (simp_all add: new_connector_def)
  have c: "deactivations (run ?xs ?S) = deactivations ?S"
    by (simp add: activate_def run_defs truthy_def chainChangedListener_fn_def URIListener_fn_def
        act_def)
  have d: "constructions (run ?ys ?s0) = 2" "deactivations (run ?ys ?s0) = 1"
    by (simp_all add: activate_def run_defs truthy_def deactivate_def act_def call_def)
  note t = single_flight_sequential [of ?S ?H ?F "Some 1" ?xs ?F None]
  note u = single_flight_sequential [of ?s0 ?H ?E None ?ys ?E None]
  have t1: "fst (isomorphicInitialize ?F (Some 1) ?S) = ?H"
    using t [THEN conjunct1, THEN mp, OF a(1)] by simp
  note t3 = t [THEN conjunct2, THEN conjunct2, THEN conjunct1, THEN mp, OF conjI [OF a(1) c]]
  have t3b: "fst (isomorphicInitialize ?F None (run ?xs ?S)) = ?H"
    using t3 [THEN conjunct2] by simp
  note u2 = u [THEN conjunct2, THEN conjunct1, THEN mp, OF b(1)]
  show ?thesis
    using a(1) t1 c t3 [THEN conjunct1] a(2) t3b b u2 d by simp
qed

subsection \<open>Attaching and detaching the listeners\<close>

text \<open>On the Provider that \<open>this.provider\<close> refers to, \<open>deactivate\<close> undoes
  \<open>handleProviderEvents\<close> and calls \<open>disconnect()\<close>.\<close>

lemma detach_after_attach:
  assumes "provider s = Some r"
    and "set (listeners (heap s r)) \<inter>
          {(''disconnect'', disconnectListener), (''chainChanged'', chainChangedListener),
           (''accountsChanged'', accountsChangedListener), (''display_uri'', URIListener)} = {}"
  shows "listeners (heap (deactivate (handleProviderEvents r s)) r) = listeners (heap s r)"
    and "provider_log (deactivate (handleProviderEvents r s)) = provider_log s @ [(r, Disconnect)]"
  using assms
  by (simp_all add: deactivate_def handleProviderEvents_def on_def removeListener_def act_def
      call_def remove1_append)

text \<open>A Provider that \<open>this.provider\<close> does not refer to is left as it is.\<close>

lemma deactivate_other_provider:
  "provider s \<noteq> Some r \<Longrightarrow> heap (deactivate s) r = heap s r
     \<and> provider_log (deactivate s) = provider_log s @
          (case provider s of None \<Rightarrow> [] | Some r' \<Rightarrow> [(r', Disconnect)])"
  by (simp add: deactivate_def act_def call_def split: option.split)

text \<open>No operation of the connector assigns \<open>this.provider\<close>: once absent, it stays
  absent.\<close>

lemma perform_provider: "provider s = None \<Longrightarrow> provider (perform x s) = None"
proof (cases x)
  case (ConnectEagerly e)
  obtain h s1 where i: "isomorphicInitialize e None (act StartActivation s) = (h, s1)" by force
  assume "provider s = None"
  then have "provider s1 = None" using isomorphicInitialize_frame [OF i] by simp
  then show ?thesis using ConnectEagerly i
    by (simp add: connectEagerly_def deactivate_bookkeeping split: sum.split option.split)
next
  case (Activate e d)
  obtain h s1 where i: "isomorphicInitialize e d s = (h, s1)" by force
  assume "provider s = None"
  then have "provider s1 = None" using isomorphicInitialize_frame [OF i] by simp
  then show ?thesis using Activate i
    by (simp add: activate_def Let_def deactivate_bookkeeping
        split: sum.split option.split prod.split)
next
  case Deactivate
  then show ?thesis by (simp add: deactivate_bookkeeping)
next
  case (OnDisconnect err)
  assume "provider s = None"
  then show ?thesis using OnDisconnect
    by (simp add: disconnectListener_fn_def Let_def act_def split: option.split)
next
  case (OnChainChanged cid)
  assume "provider s = None"
  then show ?thesis using OnChainChanged by (simp add: chainChangedListener_fn_def)
next
  case (OnAccountsChanged accs)
  assume "provider s = None"
  then show ?thesis using OnAccountsChanged by (simp add: accountsChangedListener_fn_def)
next
  case (OnDisplayUri uri)
  assume "provider s = None"
  then show ?thesis using OnDisplayUri by (simp add: URIListener_fn_def)
qed

lemma run_provider: "provider s = None \<Longrightarrow> provider (run xs s) = None"
  by (induction xs arbitrary: s) (simp_all add: perform_provider)

text \<open>What \<open>activate\<close> does when the Provider has no session and \<open>enable()\<close>
  succeeds.\<close>

lemma activate_enabled:
  assumes "isomorphicInitialize e d s = (h, s1)"
    and "settled h = Inr r" and "session (heap s1 r) = None"
    and "enable_outcome e = Inr (sess, cid, accs)"
  shows "activate e d s =
    (Inr (), act (Update (Some (Num cid)) (Some accs))
       ((call r Enable (act StartActivation s1))
          \<lparr>heap := (heap s1)(r := (heap s1 r)\<lparr>session := Some sess, chainId := cid, accounts := accs\<rparr>)\<rparr>))"
  using assms by (simp add: activate_def act_def call_def)

text \<open>
  C1 fails on the code. A connector with \<open>chains = [1]\<close> is activated: \<open>init\<close> returns
  a Provider without a session (it gets address 0), the four listeners are attached to
  it and \<open>enable()\<close> succeeds. \<open>this.provider\<close> is still absent. After \<open>deactivate()\<close>
  the four listeners are still registered on that Provider, and the only call it has
  received is \<open>enable()\<close>: \<open>disconnect()\<close> was not called on it.
\<close>

theorem deactivate_leaves_constructed_provider_wired:
  "settled (fst (isomorphicInitialize (world (Inr sessionless) (Inr ([''eip155:1:0xabc''], 1, [''0xabc''])))
       None (new_connector (Some [1]) None None))) = Inr 0
   \<and> fst (activate (world (Inr sessionless) (Inr ([''eip155:1:0xabc''], 1, [''0xabc''])))
       None (new_connector (Some [1]) None None)) = Inr ()
   \<and> provider (snd (activate (world (Inr sessionless) (Inr ([''eip155:1:0xabc''], 1, [''0xabc''])))
       None (new_connector (Some [1]) None None))) = None
   \<and> listeners (heap (deactivate (snd (activate
         (world (Inr sessionless) (Inr ([''eip155:1:0xabc''], 1, [''0xabc''])))
         None (new_connector (Some [1]) None None)))) 0)
       = [(''disconnect'', disconnectListener), (''chainChanged'', chainChangedListener),
          (''accountsChanged'', accountsChangedListener), (''display_uri'', URIListener)]
   \<and> provider_log (deactivate (snd (activate
         (world (Inr sessionless) (Inr ([''eip155:1:0xabc''], 1, [''0xabc''])))
         None (new_connector (Some [1]) None None))))
       = [(0, Enable)]"
proof -
  let ?W = "world (Inr sessionless) (Inr ([''eip155:1:0xabc''], 1, [''0xabc'']))"
  let ?s0 = "new_connector (Some [1]) None None"
  let ?i = "isomorphicInitialize ?W None ?s0"
  have i: "?i = (fst ?i, snd ?i)" by simp
  have a: "settled (fst ?i) = Inr 0" by (simp add: run_defs)
  have b: "session (heap (snd ?i) 0) = None" by (simp add: run_defs)
  have c: "enable_outcome ?W = Inr ([''eip155:1:0xabc''], 1, [''0xabc''])" by (simp add: world_def)
  have p: "provider (snd ?i) = None" "provider_log (snd ?i) = []"
    "listeners (heap (snd ?i) 0)
       = [(''disconnect'', disconnectListener), (''chainChanged'', chainChangedListener),
          (''accountsChanged'', accountsChangedListener), (''display_uri'', URIListener)]"
    by (simp_all add: run_defs)
  note act = activate_enabled [OF i a b c]
  show ?thesis
    unfolding act using a p
    by (simp add: deactivate_def act_def call_def)
qed

theorem deactivate_leaves_constructed_provider_wired_witness:
  "length (listeners (heap (deactivate (snd (activate
         (world (Inr sessionless) (Inr ([''eip155:1:0xabc''], 1, [''0xabc''])))
         None (new_connector (Some [1]) None None)))) 0)) = 4
   \<and> (0, Disconnect) \<notin> set (provider_log (deactivate (snd (activate
         (world (Inr sessionless) (Inr ([''eip155:1:0xabc''], 1, [''0xabc''])))
         None (new_connector (Some [1]) None None)))))"
  using deactivate_leaves_constructed_provider_wired by simp

subsection \<open>Single-flight construction with overlapping operations\<close>

lemma deactivate_nat_bookkeeping:
  "constructions (deactivate c) = constructions c
   \<and> deactivations (deactivate c) = Suc (deactivations c)
   \<and> eagerConnection (deactivate c) = None"
  by (simp add: deactivate_def act_def call_def split: option.split)

lemma callInit_effect:
  assumes "callInit n d sys = (t', sys')"
  shows "constructions (conn sys') = constructions (conn sys)
    \<and> deactivations (conn sys') = deactivations (conn sys)
    \<and> eagerConnection (conn sys') = eagerConnection (conn sys)
    \<and> handed sys' = handed sys \<and> tasks sys' = tasks sys \<and> observed sys' = observed sys
    \<and> ((settlement sys' = settlement sys \<and> t' = AwaitInit n)
       \<or> (\<exists>v. settlement sys' = (settlement sys)(n := Some v) \<and> t' = Settled))"
  using assms
  by (auto simp: callInit_def settle_def upd_def split: sum.splits)

lemma continue_effect:
  assumes "continue t a sys = (t', sys')"
  shows "constructions (conn sys') = constructions (conn sys)
    \<and> handed sys' = handed sys \<and> tasks sys' = tasks sys
    \<and> ((eagerConnection (conn sys') = eagerConnection (conn sys)
          \<and> deactivations (conn sys') = deactivations (conn sys))
       \<or> (eagerConnection (conn sys') = None
          \<and> deactivations (conn sys') = Suc (deactivations (conn sys))))
    \<and> ((settlement sys' = settlement sys \<and> building t' = building t)
       \<or> (\<exists>n v. building t = Some n \<and> building t' = None
            \<and> settlement sys' = (settlement sys)(n := Some v)))
    \<and> (observed sys' = observed sys
       \<or> (\<exists>n v. settlement sys n = Some v \<and> observed sys' = observed sys @ [(n, v)]))"
proof (cases t)
  case (AwaitImport n d)
  then show ?thesis using assms callInit_effect [of n d sys t' sys']
    by (cases a) (auto simp: settle_def split: if_splits)
next
  case (AwaitUrlMap n d)
  then show ?thesis using assms callInit_effect [of n d sys t' sys']
    by (cases a) (auto simp: settle_def)
next
  case (AwaitInit n)
  then show ?thesis using assms
    by (cases a) (auto simp: settle_def upd_def handleProviderEvents_def Let_def)
next
  case Settled
  then show ?thesis using assms by auto
next
  case (EagerAwaitProvider n)
  then show ?thesis using assms deactivate_nat_bookkeeping [of "conn sys"]
    by (auto simp: upd_def observe_def act_def Let_def split: option.splits sum.splits)
next
  case (EagerAwaitDeactivate err)
  then show ?thesis using assms by (auto simp: upd_def act_def)
next
  case (ActivateAwaitProvider n d)
  then show ?thesis using assms
    by (auto simp: upd_def observe_def act_def call_def Let_def
        split: option.splits sum.splits if_splits)
next
  case ActivateAwaitRequest
  then show ?thesis using assms by (cases a) auto
next
  case (ActivateAwaitEnable r)
  then show ?thesis using assms deactivate_nat_bookkeeping [of "conn sys"]
    by (cases a) (auto simp: upd_def act_def)
next
  case (ActivateAwaitDeactivate err)
  then show ?thesis using assms by (auto simp: upd_def act_def)
next
  case (Returned v)
  then show ?thesis using assms by auto
qed


lemma isomorphicInitialize_call_effect:
  assumes "isomorphicInitialize_call d sys = (n, sys')"
  shows "deactivations (conn sys') = deactivations (conn sys)
    \<and> handed sys' = handed sys @ [(deactivations (conn sys), n)]
    \<and> observed sys' = observed sys
    \<and> eagerConnection (conn sys') = Some n
    \<and> ((eagerConnection (conn sys) = Some n \<and> constructions (conn sys') = constructions (conn sys)
          \<and> tasks sys' = tasks sys \<and> settlement sys' = settlement sys)
       \<or> (eagerConnection (conn sys) = None \<and> n = constructions (conn sys)
          \<and> constructions (conn sys') = Suc n
          \<and> (\<exists>b. tasks sys' = tasks sys @ [b] \<and> building b = Some n)
          \<and> settlement sys' = (settlement sys)(n := None)))"
  using assms
  by (auto simp: isomorphicInitialize_call_def Let_def split: option.splits)

lemma listener_bookkeeping:
  "constructions (disconnectListener_fn err c) = constructions c"
  "deactivations (disconnectListener_fn err c) = deactivations c"
  "eagerConnection (disconnectListener_fn err c) = eagerConnection c"
  "constructions (chainChangedListener_fn cid c) = constructions c"
  "deactivations (chainChangedListener_fn cid c) = deactivations c"
  "eagerConnection (chainChangedListener_fn cid c) = eagerConnection c"
  "constructions (accountsChangedListener_fn accs c) = constructions c"
  "deactivations (accountsChangedListener_fn accs c) = deactivations c"
  "eagerConnection (accountsChangedListener_fn accs c) = eagerConnection c"
  "constructions (URIListener_fn uri c) = constructions c"
  "deactivations (URIListener_fn uri c) = deactivations c"
  "eagerConnection (URIListener_fn uri c) = eagerConnection c"
  by (simp_all add: disconnectListener_fn_def chainChangedListener_fn_def
      accountsChangedListener_fn_def URIListener_fn_def act_def Let_def split: option.split)

text \<open>The four shapes a step can have.\<close>

lemma fire_effect:
  obtains
    (resumed) i a t' sys1 where "i < length (tasks sys)"
      "continue (tasks sys ! i) a sys = (t', sys1)" "ev = Resume i a"
      "fire ev sys = sys1\<lparr>tasks := (tasks sys)[i := t']\<rparr>"
  | (joined) n t where "eagerConnection (conn sys) = Some n"
      "constructions (conn (fire ev sys)) = constructions (conn sys)"
      "deactivations (conn (fire ev sys)) = deactivations (conn sys)"
      "eagerConnection (conn (fire ev sys)) = Some n"
      "handed (fire ev sys) = handed sys @ [(deactivations (conn sys), n)]"
      "tasks (fire ev sys) = tasks sys @ [t]" "building t = None"
      "settlement (fire ev sys) = settlement sys" "observed (fire ev sys) = observed sys"
  | (started) b t where "eagerConnection (conn sys) = None"
      "constructions (conn (fire ev sys)) = Suc (constructions (conn sys))"
      "deactivations (conn (fire ev sys)) = deactivations (conn sys)"
      "eagerConnection (conn (fire ev sys)) = Some (constructions (conn sys))"
      "handed (fire ev sys) = handed sys @ [(deactivations (conn sys), constructions (conn sys))]"
      "tasks (fire ev sys) = tasks sys @ [b, t]"
      "building b = Some (constructions (conn sys))" "building t = None"
      "settlement (fire ev sys) = (settlement sys)(constructions (conn sys) := None)"
      "observed (fire ev sys) = observed sys"
  | (local) "constructions (conn (fire ev sys)) = constructions (conn sys)"
      "(eagerConnection (conn (fire ev sys)) = eagerConnection (conn sys)
          \<and> deactivations (conn (fire ev sys)) = deactivations (conn sys))
       \<or> (eagerConnection (conn (fire ev sys)) = None
          \<and> deactivations (conn (fire ev sys)) = Suc (deactivations (conn sys)))"
      "handed (fire ev sys) = handed sys" "tasks (fire ev sys) = tasks sys"
      "settlement (fire ev sys) = settlement sys" "observed (fire ev sys) = observed sys"
proof (cases ev)
  case CallConnectEagerly
  let ?sys0 = "upd (act StartActivation) sys"
  obtain n sys1 where i: "isomorphicInitialize_call None ?sys0 = (n, sys1)" by force
  have f: "fire ev sys = sys1\<lparr>tasks := tasks sys1 @ [EagerAwaitProvider n]\<rparr>"
    using CallConnectEagerly i by simp
  have z: "eagerConnection (conn ?sys0) = eagerConnection (conn sys)"
    "constructions (conn ?sys0) = constructions (conn sys)"
    "deactivations (conn ?sys0) = deactivations (conn sys)"
    "handed ?sys0 = handed sys" "tasks ?sys0 = tasks sys" "settlement ?sys0 = settlement sys"
    "observed ?sys0 = observed sys"
    by (simp_all add: upd_def act_def)
  from isomorphicInitialize_call_effect [OF i] show ?thesis
  proof (elim conjE disjE exE)
    assume "eagerConnection (conn ?sys0) = Some n" "handed sys1 = handed ?sys0 @ [(deactivations (conn ?sys0), n)]"
      "deactivations (conn sys1) = deactivations (conn ?sys0)" "observed sys1 = observed ?sys0"
      "eagerConnection (conn sys1) = Some n" "constructions (conn sys1) = constructions (conn ?sys0)"
      "tasks sys1 = tasks ?sys0" "settlement sys1 = settlement ?sys0"
    then show ?thesis using joined [of n "EagerAwaitProvider n"] f z by simp
  next
    fix b
    assume "eagerConnection (conn ?sys0) = None" "handed sys1 = handed ?sys0 @ [(deactivations (conn ?sys0), n)]"
      "deactivations (conn sys1) = deactivations (conn ?sys0)" "observed sys1 = observed ?sys0"
      "eagerConnection (conn sys1) = Some n" "n = constructions (conn ?sys0)"
      "constructions (conn sys1) = Suc n" "tasks sys1 = tasks ?sys0 @ [b]" "building b = Some n"
      "settlement sys1 = (settlement ?sys0)(n := None)"
    then show ?thesis using started [of b "EagerAwaitProvider n"] f z by simp
  qed
next
  case (CallActivate d)
  obtain n sys1 where i: "isomorphicInitialize_call d sys = (n, sys1)" by force
  have f: "fire ev sys = sys1\<lparr>tasks := tasks sys1 @ [ActivateAwaitProvider n d]\<rparr>"
    using CallActivate i by simp
  from isomorphicInitialize_call_effect [OF i] show ?thesis
  proof (elim conjE disjE exE)
    assume "eagerConnection (conn sys) = Some n" "handed sys1 = handed sys @ [(deactivations (conn sys), n)]"
      "deactivations (conn sys1) = deactivations (conn sys)" "observed sys1 = observed sys"
      "eagerConnection (conn sys1) = Some n" "constructions (conn sys1) = constructions (conn sys)"
      "tasks sys1 = tasks sys" "settlement sys1 = settlement sys"
    then show ?thesis using joined [of n "ActivateAwaitProvider n d"] f by simp
  next
    fix b
    assume "eagerConnection (conn sys) = None" "handed sys1 = handed sys @ [(deactivations (conn sys), n)]"
      "deactivations (conn sys1) = deactivations (conn sys)" "observed sys1 = observed sys"
      "eagerConnection (conn sys1) = Some n" "n = constructions (conn sys)"
      "constructions (conn sys1) = Suc n" "tasks sys1 = tasks sys @ [b]" "building b = Some n"
      "settlement sys1 = (settlement sys)(n := None)"
    then show ?thesis using started [of b "ActivateAwaitProvider n d"] f by simp
  qed
next
  case CallDeactivate
  then show ?thesis using local deactivate_nat_bookkeeping [of "conn sys"]
    by (simp add: upd_def)
next
  case (Disconnected err)
  then show ?thesis using local by (simp add: upd_def listener_bookkeeping)
next
  case (ChainChanged cid)
  then show ?thesis using local by (simp add: upd_def listener_bookkeeping)
next
  case (AccountsChanged accs)
  then show ?thesis using local by (simp add: upd_def listener_bookkeeping)
next
  case (DisplayUri uri)
  then show ?thesis using local by (simp add: upd_def listener_bookkeeping)
next
  case (Resume i a')
  show ?thesis
  proof (cases "i < length (tasks sys)")
    case True
    obtain t' sys1 where c: "continue (tasks sys ! i) a' sys = (t', sys1)" by force
    have "tasks sys1 = tasks sys" using continue_effect [OF c] by simp
    then have "fire ev sys = sys1\<lparr>tasks := (tasks sys)[i := t']\<rparr>"
      using Resume True c by simp
    then show ?thesis using resumed [of i a' t' sys1] True c Resume by simp
  next
    case False
    then show ?thesis using local Resume by simp
  qed
qed

lemma coherentD:
  assumes "coherent sys"
  shows "\<And>m. eagerConnection (conn sys) = Some m \<Longrightarrow> m < constructions (conn sys)"
    and "\<And>k m. (k, m) \<in> set (handed sys) \<Longrightarrow>
          m < constructions (conn sys) \<and> k \<le> deactivations (conn sys)
          \<and> (k = deactivations (conn sys) \<longrightarrow> eagerConnection (conn sys) = Some m)"
    and "\<And>i j n. i < length (tasks sys) \<Longrightarrow> j < length (tasks sys) \<Longrightarrow>
          building (tasks sys ! i) = Some n \<Longrightarrow> building (tasks sys ! j) = Some n \<Longrightarrow> i = j"
    and "\<And>i n. i < length (tasks sys) \<Longrightarrow> building (tasks sys ! i) = Some n \<Longrightarrow>
          n < constructions (conn sys) \<and> settlement sys n = None"
    and "\<And>m. constructions (conn sys) \<le> m \<Longrightarrow> settlement sys m = None"
    and "\<And>m v. (m, v) \<in> set (observed sys) \<Longrightarrow> settlement sys m = Some v"
    and "\<And>k m m'. (k, m) \<in> set (handed sys) \<Longrightarrow> (k, m') \<in> set (handed sys) \<Longrightarrow> m = m'"
proof -
  note c = assms [unfolded coherent_def]
  show "\<And>m. eagerConnection (conn sys) = Some m \<Longrightarrow> m < constructions (conn sys)"
    using c [THEN conjunct1] by simp
  show "\<And>k m. (k, m) \<in> set (handed sys) \<Longrightarrow>
          m < constructions (conn sys) \<and> k \<le> deactivations (conn sys)
          \<and> (k = deactivations (conn sys) \<longrightarrow> eagerConnection (conn sys) = Some m)"
    using c [THEN conjunct2, THEN conjunct1] by fast
  show "\<And>i j n. i < length (tasks sys) \<Longrightarrow> j < length (tasks sys) \<Longrightarrow>
          building (tasks sys ! i) = Some n \<Longrightarrow> building (tasks sys ! j) = Some n \<Longrightarrow> i = j"
    using c [THEN conjunct2, THEN conjunct2, THEN conjunct1] by blast
  show "\<And>i n. i < length (tasks sys) \<Longrightarrow> building (tasks sys ! i) = Some n \<Longrightarrow>
          n < constructions (conn sys) \<and> settlement sys n = None"
    using c [THEN conjunct2, THEN conjunct2, THEN conjunct2, THEN conjunct1] by blast
  show "\<And>m. constructions (conn sys) \<le> m \<Longrightarrow> settlement sys m = None"
    using c [THEN conjunct2, THEN conjunct2, THEN conjunct2, THEN conjunct2, THEN conjunct1] by simp
  show "\<And>m v. (m, v) \<in> set (observed sys) \<Longrightarrow> settlement sys m = Some v"
    using c [THEN conjunct2, THEN conjunct2, THEN conjunct2, THEN conjunct2, THEN conjunct2,
        THEN conjunct1] by fast
  show "\<And>k m m'. (k, m) \<in> set (handed sys) \<Longrightarrow> (k, m') \<in> set (handed sys) \<Longrightarrow> m = m'"
    using c [THEN conjunct2, THEN conjunct2, THEN conjunct2, THEN conjunct2, THEN conjunct2,
        THEN conjunct2] by fast
qed

lemma coherentI:
  assumes "\<forall>m. eagerConnection (conn sys) = Some m \<longrightarrow> m < constructions (conn sys)"
    and "\<forall>(k, m) \<in> set (handed sys).
            m < constructions (conn sys) \<and> k \<le> deactivations (conn sys)
            \<and> (k = deactivations (conn sys) \<longrightarrow> eagerConnection (conn sys) = Some m)"
    and "\<forall>i j n. i < length (tasks sys) \<and> j < length (tasks sys)
            \<and> building (tasks sys ! i) = Some n \<and> building (tasks sys ! j) = Some n \<longrightarrow> i = j"
    and "\<forall>i n. i < length (tasks sys) \<and> building (tasks sys ! i) = Some n \<longrightarrow>
            n < constructions (conn sys) \<and> settlement sys n = None"
    and "\<forall>m. constructions (conn sys) \<le> m \<longrightarrow> settlement sys m = None"
    and "\<forall>(m, v) \<in> set (observed sys). settlement sys m = Some v"
    and "\<forall>(k, m) \<in> set (handed sys). \<forall>(k', m') \<in> set (handed sys). k = k' \<longrightarrow> m = m'"
  shows "coherent sys"
  unfolding coherent_def
  by (rule conjI [OF assms(1) conjI [OF assms(2) conjI [OF assms(3) conjI [OF assms(4)
        conjI [OF assms(5) conjI [OF assms(6) assms(7)]]]]]])

lemma coherent_fire:
  assumes "coherent sys"
  shows "coherent (fire ev sys)"
proof -
  let ?c = "conn sys" and ?ts = "tasks sys"
  note h1 = coherentD(1) [OF assms] and h2 = coherentD(2) [OF assms]
    and h3 = coherentD(3) [OF assms] and h4 = coherentD(4) [OF assms]
    and h5 = coherentD(5) [OF assms] and h6 = coherentD(6) [OF assms]
    and h7 = coherentD(7) [OF assms]
  show ?thesis
  proof (cases rule: fire_effect [of sys ev])
    case (resumed i a t' sys1)
    note e = continue_effect [OF resumed(2)]
    let ?s' = "fire ev sys"
    have c: "constructions (conn ?s') = constructions ?c" "handed ?s' = handed sys"
      "tasks ?s' = ?ts[i := t']"
      using e resumed(4) by simp_all
    have k: "(eagerConnection (conn ?s') = eagerConnection ?c
          \<and> deactivations (conn ?s') = deactivations ?c)
       \<or> (eagerConnection (conn ?s') = None
          \<and> deactivations (conn ?s') = Suc (deactivations ?c))"
      using e resumed(4) by simp
    have st: "(settlement ?s' = settlement sys \<and> building t' = building (?ts ! i))
       \<or> (\<exists>n v. building (?ts ! i) = Some n \<and> building t' = None
            \<and> settlement ?s' = (settlement sys)(n := Some v))"
      using e resumed(4) by simp
    have ob: "observed ?s' = observed sys
       \<or> (\<exists>n v. settlement sys n = Some v \<and> observed ?s' = observed sys @ [(n, v)])"
      using e resumed(4) by simp
    have g1: "\<forall>m. eagerConnection (conn ?s') = Some m \<longrightarrow> m < constructions (conn ?s')"
      using k c h1 by auto
    have g2: "\<forall>(k, m) \<in> set (handed ?s').
            m < constructions (conn ?s') \<and> k \<le> deactivations (conn ?s')
            \<and> (k = deactivations (conn ?s') \<longrightarrow> eagerConnection (conn ?s') = Some m)"
      using k c h2 by fastforce
    have bt: "\<And>j n. j < length ?ts \<Longrightarrow> building ((?ts[i := t']) ! j) = Some n \<Longrightarrow>
        building (?ts ! j) = Some n"
      using st resumed(1) by (auto simp: nth_list_update split: if_splits)
    have g3: "\<forall>a b n. a < length (tasks ?s') \<and> b < length (tasks ?s')
            \<and> building (tasks ?s' ! a) = Some n \<and> building (tasks ?s' ! b) = Some n \<longrightarrow> a = b"
      using c(3) bt h3 by auto
    have g4: "\<forall>j n. j < length (tasks ?s') \<and> building (tasks ?s' ! j) = Some n \<longrightarrow>
            n < constructions (conn ?s') \<and> settlement ?s' n = None"
    proof (intro allI impI, elim conjE)
      fix j n
      assume j: "j < length (tasks ?s')" and b: "building (tasks ?s' ! j) = Some n"
      then have j': "j < length ?ts" and b': "building (?ts ! j) = Some n"
        using c(3) bt by auto
      from st show "n < constructions (conn ?s') \<and> settlement ?s' n = None"
      proof (elim disjE exE conjE)
        assume "settlement ?s' = settlement sys"
        then show ?thesis using h4 [OF j' b'] c(1) by simp
      next
        fix n' v
        assume n': "building (?ts ! i) = Some n'" "building t' = None"
          "settlement ?s' = (settlement sys)(n' := Some v)"
        have "j \<noteq> i" using b c(3) n'(2) j' by auto
        then have "n \<noteq> n'" using h3 [OF j' resumed(1) b'] n'(1) by auto
        then show ?thesis using h4 [OF j' b'] c(1) n'(3) by simp
      qed
    qed
    have g5: "\<forall>m. constructions (conn ?s') \<le> m \<longrightarrow> settlement ?s' m = None"
      using st c(1) h5 h4 [OF resumed(1)] by auto
    have g6: "\<forall>(m, v) \<in> set (observed ?s'). settlement ?s' m = Some v"
    proof -
      have "\<And>m v. settlement sys m = Some v \<Longrightarrow> settlement ?s' m = Some v"
        using st h4 [OF resumed(1)] by auto
      then show ?thesis using ob h6 by auto
    qed
    have g7: "\<forall>(k, m) \<in> set (handed ?s'). \<forall>(k', m') \<in> set (handed ?s'). k = k' \<longrightarrow> m = m'"
      using c(2) h7 by auto
    show ?thesis by (rule coherentI [OF g1 g2 g3 g4 g5 g6 g7])
  next
    case (joined n t)
    have g3: "\<forall>a b m. a < length (tasks (fire ev sys)) \<and> b < length (tasks (fire ev sys))
            \<and> building (tasks (fire ev sys) ! a) = Some m
            \<and> building (tasks (fire ev sys) ! b) = Some m \<longrightarrow> a = b"
      using joined(6,7) h3 by (auto simp: nth_append less_Suc_eq split: if_splits)
    have g4: "\<forall>j m. j < length (tasks (fire ev sys)) \<and> building (tasks (fire ev sys) ! j) = Some m \<longrightarrow>
            m < constructions (conn (fire ev sys)) \<and> settlement (fire ev sys) m = None"
      using joined(2,6,7,8) h4 by (auto simp: nth_append less_Suc_eq split: if_splits)
    have g2: "\<forall>(k, m) \<in> set (handed (fire ev sys)).
            m < constructions (conn (fire ev sys)) \<and> k \<le> deactivations (conn (fire ev sys))
            \<and> (k = deactivations (conn (fire ev sys)) \<longrightarrow> eagerConnection (conn (fire ev sys)) = Some m)"
      using joined(1-5) h1 h2 by fastforce
    have g7: "\<forall>(k, m) \<in> set (handed (fire ev sys)).
        \<forall>(k', m') \<in> set (handed (fire ev sys)). k = k' \<longrightarrow> m = m'"
      using joined(1,5) h2 h7 by fastforce
    have g1: "\<forall>m. eagerConnection (conn (fire ev sys)) = Some m \<longrightarrow> m < constructions (conn (fire ev sys))"
      using joined(1,2,4) h1 by auto
    have g5: "\<forall>m. constructions (conn (fire ev sys)) \<le> m \<longrightarrow> settlement (fire ev sys) m = None"
      using joined(2,8) h5 by auto
    have g6: "\<forall>(m, v) \<in> set (observed (fire ev sys)). settlement (fire ev sys) m = Some v"
      using joined(8,9) h6 by auto
    show ?thesis by (rule coherentI [OF g1 g2 g3 g4 g5 g6 g7])
  next
    case (started b t)
    let ?n = "constructions ?c"
    have g3: "\<forall>a b' m. a < length (tasks (fire ev sys)) \<and> b' < length (tasks (fire ev sys))
            \<and> building (tasks (fire ev sys) ! a) = Some m
            \<and> building (tasks (fire ev sys) ! b') = Some m \<longrightarrow> a = b'"
    proof (intro allI impI, elim conjE)
      fix a b' m
      let ?ts' = "tasks (fire ev sys)"
      assume a: "a < length ?ts'" "b' < length ?ts'" "building (?ts' ! a) = Some m"
        "building (?ts' ! b') = Some m"
      have old: "\<And>j. j < length ?ts \<Longrightarrow> ?ts' ! j = ?ts ! j" using started(6) by (simp add: nth_append)
      have new: "\<And>j. j < length ?ts' \<Longrightarrow> \<not> j < length ?ts \<Longrightarrow> building (?ts' ! j) = Some m \<Longrightarrow>
          j = length ?ts \<and> m = ?n"
        using started(6,7,8) by (auto simp: nth_append less_Suc_eq nth_Cons' split: if_splits)
      have lt: "\<And>j. j < length ?ts \<Longrightarrow> building (?ts ! j) = Some m \<Longrightarrow> m < ?n"
        using h4 by blast
      show "a = b'"
      proof (cases "a < length ?ts")
        case True
        note A = this
        show ?thesis
        proof (cases "b' < length ?ts")
          case True
          then show ?thesis using A a old h3 by auto
        next
          case False
          then show ?thesis using A a old new [OF a(2) False a(4)] lt [OF A] by auto
        qed
      next
        case False
        note A = this
        show ?thesis
        proof (cases "b' < length ?ts")
          case True
          then show ?thesis using A a old new [OF a(1) A a(3)] lt [OF True] by auto
        next
          case False
          then show ?thesis using new [OF a(1) A a(3)] new [OF a(2) False a(4)] by simp
        qed
      qed
    qed
    have g4: "\<forall>j m. j < length (tasks (fire ev sys)) \<and> building (tasks (fire ev sys) ! j) = Some m \<longrightarrow>
            m < constructions (conn (fire ev sys)) \<and> settlement (fire ev sys) m = None"
      using started(2,6,7,8,9) h4
      by (auto simp: nth_append less_Suc_eq nth_Cons' split: if_splits)
    have g2: "\<forall>(k, m) \<in> set (handed (fire ev sys)).
            m < constructions (conn (fire ev sys)) \<and> k \<le> deactivations (conn (fire ev sys))
            \<and> (k = deactivations (conn (fire ev sys)) \<longrightarrow> eagerConnection (conn (fire ev sys)) = Some m)"
      using started(1-5) h2 by fastforce
    have g6: "\<forall>(m, v) \<in> set (observed (fire ev sys)). settlement (fire ev sys) m = Some v"
    proof -
      have "\<And>m v. settlement sys m = Some v \<Longrightarrow> m \<noteq> ?n" using h5 [of ?n] by auto
      then show ?thesis using started(9,10) h6 by auto
    qed
    have g7: "\<forall>(k, m) \<in> set (handed (fire ev sys)).
        \<forall>(k', m') \<in> set (handed (fire ev sys)). k = k' \<longrightarrow> m = m'"
      using started(1,5) h2 h7 by fastforce
    have g1: "\<forall>m. eagerConnection (conn (fire ev sys)) = Some m \<longrightarrow> m < constructions (conn (fire ev sys))"
      using started(2,4) by auto
    have g5: "\<forall>m. constructions (conn (fire ev sys)) \<le> m \<longrightarrow> settlement (fire ev sys) m = None"
      using started(2,9) h5 by auto
    show ?thesis by (rule coherentI [OF g1 g2 g3 g4 g5 g6 g7])
  next
    case local
    have g2: "\<forall>(k, m) \<in> set (handed (fire ev sys)).
            m < constructions (conn (fire ev sys)) \<and> k \<le> deactivations (conn (fire ev sys))
            \<and> (k = deactivations (conn (fire ev sys)) \<longrightarrow> eagerConnection (conn (fire ev sys)) = Some m)"
      using local(1-3) h2 by fastforce
    have g1: "\<forall>m. eagerConnection (conn (fire ev sys)) = Some m \<longrightarrow> m < constructions (conn (fire ev sys))"
      using local(1,2) h1 by auto
    have g7: "\<forall>(k, m) \<in> set (handed (fire ev sys)).
        \<forall>(k', m') \<in> set (handed (fire ev sys)). k = k' \<longrightarrow> m = m'"
      using local(3) h7 by auto
    have g3: "\<forall>a b n. a < length (tasks (fire ev sys)) \<and> b < length (tasks (fire ev sys))
            \<and> building (tasks (fire ev sys) ! a) = Some n
            \<and> building (tasks (fire ev sys) ! b) = Some n \<longrightarrow> a = b"
      using local(4) h3 by auto
    have g4: "\<forall>j n. j < length (tasks (fire ev sys)) \<and> building (tasks (fire ev sys) ! j) = Some n \<longrightarrow>
            n < constructions (conn (fire ev sys)) \<and> settlement (fire ev sys) n = None"
      using local(1,4,5) h4 by auto
    have g5: "\<forall>m. constructions (conn (fire ev sys)) \<le> m \<longrightarrow> settlement (fire ev sys) m = None"
      using local(1,5) h5 by auto
    have g6: "\<forall>(m, v) \<in> set (observed (fire ev sys)). settlement (fire ev sys) m = Some v"
      using local(5,6) h6 by auto
    show ?thesis by (rule coherentI [OF g1 g2 g3 g4 g5 g6 g7])
  qed
qed


lemma coherent_start: "coherent (start c)"
  by (simp add: coherent_def start_def)

lemma coherent_exec: "coherent sys \<Longrightarrow> coherent (exec evs sys)"
  by (induction evs arbitrary: sys) (simp_all add: coherent_fire)

lemma fire_bookkeeping:
  "(deactivations (conn (fire ev sys)) = deactivations (conn sys)
      \<and> constructions (conn (fire ev sys))
          = constructions (conn sys)
            + (if eagerConnection (conn sys) = None \<and> eagerConnection (conn (fire ev sys)) \<noteq> None then 1 else 0)
      \<and> (\<forall>n. eagerConnection (conn sys) = Some n \<longrightarrow> eagerConnection (conn (fire ev sys)) = Some n)
      \<and> (eagerConnection (conn sys) = None \<and> eagerConnection (conn (fire ev sys)) \<noteq> None \<longrightarrow>
            eagerConnection (conn (fire ev sys)) = Some (constructions (conn sys))))
   \<or> (deactivations (conn (fire ev sys)) = Suc (deactivations (conn sys))
      \<and> eagerConnection (conn (fire ev sys)) = None
      \<and> constructions (conn (fire ev sys)) = constructions (conn sys))"
proof (cases rule: fire_effect [of sys ev])
  case (resumed i a t' sys1)
  then show ?thesis using continue_effect [OF resumed(2)]
    by (cases "eagerConnection (conn sys)") auto
next
  case (joined n t)
  then show ?thesis by simp
next
  case (started b t)
  then show ?thesis by simp
next
  case local
  then show ?thesis by (cases "eagerConnection (conn sys)") auto
qed

lemma fire_deactivations_mono: "deactivations (conn sys) \<le> deactivations (conn (fire ev sys))"
  using fire_bookkeeping [of ev sys] by auto

lemma exec_deactivations_mono: "deactivations (conn sys) \<le> deactivations (conn (exec evs sys))"
proof (induction evs arbitrary: sys)
  case Nil
  show ?case by simp
next
  case (Cons ev evs)
  show ?case
    using fire_deactivations_mono [of sys ev] Cons [of "fire ev sys"] by simp
qed

lemma exec_keeps_handle:
  "deactivations (conn (exec evs sys)) = deactivations (conn sys) \<Longrightarrow>
     eagerConnection (conn sys) = Some n \<Longrightarrow>
     eagerConnection (conn (exec evs sys)) = Some n
     \<and> constructions (conn (exec evs sys)) = constructions (conn sys)"
proof (induction evs arbitrary: sys)
  case Nil
  then show ?case by simp
next
  case (Cons ev evs)
  have "deactivations (conn sys) \<le> deactivations (conn (fire ev sys))"
    "deactivations (conn (fire ev sys)) \<le> deactivations (conn (exec evs (fire ev sys)))"
    by (rule fire_deactivations_mono, rule exec_deactivations_mono)
  then have d: "deactivations (conn (fire ev sys)) = deactivations (conn sys)"
    "deactivations (conn (exec evs (fire ev sys))) = deactivations (conn (fire ev sys))"
    using Cons.prems(1) by simp_all
  have k: "eagerConnection (conn (fire ev sys)) = Some n
      \<and> constructions (conn (fire ev sys)) = constructions (conn sys)"
    using fire_bookkeeping [of ev sys] d(1) Cons.prems(2) by auto
  show ?case using Cons.IH [OF d(2)] k by simp
qed

lemma exec_constructions_bound:
  "constructions (conn (exec evs sys)) + deactivations (conn sys)
     + (if eagerConnection (conn (exec evs sys)) = None then 1 else 0)
     \<le> constructions (conn sys) + deactivations (conn (exec evs sys))
        + (if eagerConnection (conn sys) = None then 1 else 0)"
proof (induction evs arbitrary: sys)
  case Nil
  show ?case by simp
next
  case (Cons ev evs)
  have "constructions (conn (fire ev sys)) + deactivations (conn sys)
     + (if eagerConnection (conn (fire ev sys)) = None then 1 else 0)
     \<le> constructions (conn sys) + deactivations (conn (fire ev sys))
        + (if eagerConnection (conn sys) = None then 1 else 0)"
    using fire_bookkeeping [of ev sys] by (auto split: if_splits)
  then show ?case using Cons [of "fire ev sys"] by simp
qed

text \<open>
  C6. Let the connector be used in any way at all from its construction on: calls of the
  public methods that overlap or follow each other, listeners, and suspended calls resumed
  in any order with any answers (\<open>evs\<close>), reaching \<open>sys\<close>. (1) A step starts a
  construction only when no memoized handle exists; it then starts exactly one, whose
  promise becomes the handle. (2) An existing handle stays in place over any further steps
  during which \<open>deactivate\<close> is not entered; no construction is started meanwhile, and a
  call of \<open>isomorphicInitialize\<close> then returns that same promise. (3) Any two calls of
  \<open>isomorphicInitialize\<close> with no \<open>deactivate\<close> between them, from \<open>connectEagerly\<close>
  or from \<open>activate\<close>, overlapping or not, were handed the same promise. (4) Any two
  callers that awaited the same promise received the same outcome. (5) The constructions
  started are at most one more than the number of times \<open>deactivate\<close> was entered.
  (6) \<open>deactivate\<close> clears the handle, and (7) the next call of \<open>activate\<close> after it
  starts a new construction.
\<close>

theorem single_flight_overlapping:
  assumes "sys = exec evs (start c)"
  shows
   "(constructions (conn (fire ev sys)) \<noteq> constructions (conn sys) \<longrightarrow>
        eagerConnection (conn sys) = None
        \<and> constructions (conn (fire ev sys)) = Suc (constructions (conn sys))
        \<and> eagerConnection (conn (fire ev sys)) = Some (constructions (conn sys)))
    \<and> (eagerConnection (conn sys) = Some n
        \<and> deactivations (conn (exec evs' sys)) = deactivations (conn sys) \<longrightarrow>
        eagerConnection (conn (exec evs' sys)) = Some n
        \<and> constructions (conn (exec evs' sys)) = constructions (conn sys)
        \<and> fst (isomorphicInitialize_call d (exec evs' sys)) = n)
    \<and> (\<forall>(k, m) \<in> set (handed sys). \<forall>(k', m') \<in> set (handed sys). k = k' \<longrightarrow> m = m')
    \<and> (\<forall>(m, v) \<in> set (observed sys). \<forall>(m', v') \<in> set (observed sys). m = m' \<longrightarrow> v = v')
    \<and> constructions (conn sys) + deactivations c \<le> constructions c + deactivations (conn sys) + 1
    \<and> eagerConnection (conn (fire CallDeactivate sys)) = None
    \<and> constructions (conn (fire (CallActivate d) (fire CallDeactivate sys)))
        = Suc (constructions (conn sys))"
proof -
  have co: "coherent sys" unfolding assms by (rule coherent_exec [OF coherent_start])
  have 1: "constructions (conn (fire ev sys)) \<noteq> constructions (conn sys) \<longrightarrow>
        eagerConnection (conn sys) = None
        \<and> constructions (conn (fire ev sys)) = Suc (constructions (conn sys))
        \<and> eagerConnection (conn (fire ev sys)) = Some (constructions (conn sys))"
    using fire_bookkeeping [of ev sys] by (auto split: if_splits)
  have 2: "eagerConnection (conn sys) = Some n
        \<and> deactivations (conn (exec evs' sys)) = deactivations (conn sys) \<longrightarrow>
        eagerConnection (conn (exec evs' sys)) = Some n
        \<and> constructions (conn (exec evs' sys)) = constructions (conn sys)
        \<and> fst (isomorphicInitialize_call d (exec evs' sys)) = n"
    using exec_keeps_handle [of evs' sys n] by (auto simp: isomorphicInitialize_call_def)
  have 3: "\<forall>(k, m) \<in> set (handed sys). \<forall>(k', m') \<in> set (handed sys). k = k' \<longrightarrow> m = m'"
    using co unfolding coherent_def by blast
  have 4: "\<forall>(m, v) \<in> set (observed sys). \<forall>(m', v') \<in> set (observed sys). m = m' \<longrightarrow> v = v'"
  proof -
    have "\<And>m v. (m, v) \<in> set (observed sys) \<Longrightarrow> settlement sys m = Some v"
      using co unfolding coherent_def by blast
    then have "\<And>m v v'. (m, v) \<in> set (observed sys) \<Longrightarrow> (m, v') \<in> set (observed sys) \<Longrightarrow> v = v'"
      by (metis option.inject)
    then show ?thesis by blast
  qed
  have 5: "constructions (conn sys) + deactivations c \<le> constructions c + deactivations (conn sys) + 1"
  proof -
    have s: "constructions (conn (start c)) = constructions c"
      "deactivations (conn (start c)) = deactivations c"
      "eagerConnection (conn (start c)) = None"
      by (simp_all add: start_def)
    have "constructions (conn (exec evs (start c))) + deactivations c
        \<le> constructions c + deactivations (conn (exec evs (start c))) + 1"
      using exec_constructions_bound [of evs "start c"] unfolding s
      by (cases "eagerConnection (conn (exec evs (start c)))") simp_all
    then show ?thesis unfolding assms .
  qed
  have 6: "eagerConnection (conn (fire CallDeactivate sys)) = None"
    by (simp add: upd_def deactivate_nat_bookkeeping)
  have 7: "constructions (conn (fire (CallActivate d) (fire CallDeactivate sys)))
        = Suc (constructions (conn sys))"
    using deactivate_nat_bookkeeping [of "conn sys"]
    by (simp add: isomorphicInitialize_call_def upd_def Let_def)
  show ?thesis
    by (rule conjI [OF 1 conjI [OF 2 conjI [OF 3 conjI [OF 4 conjI [OF 5 conjI [OF 6 7]]]]]])
qed

lemmas step_defs =
  isomorphicInitialize_call_def callInit_def getChainProps_def orDefault_def
  reorderChainsBasedOnId_def getChainsWithDefault_def isArrayOneOrMore_def
  handleProviderEvents_def on_def upd_def settle_def observe_def act_def call_def
  start_def new_connector_def restored_def sessionless_def truthy_def Let_def
  chainChangedListener_fn_def

text \<open>\<open>connectEagerly()\<close> and \<open>activate()\<close> are called one right after the other, before
  anything is resumed; then the import and \<open>init\<close> answer, and the two callers are
  resumed. One construction is started, \<open>init\<close> is called once, and both callers receive
  the Provider at address 0.\<close>

lemma overlapping_calls:
  fixes sys :: system
  defines "sys \<equiv> exec [CallConnectEagerly, CallActivate None, Resume 0 Succeeded,
      Resume 0 (Built restored), Resume 1 Succeeded, Resume 2 Succeeded]
      (start (new_connector (Some [1]) None None))"
  shows "handed sys = [(0, 0), (0, 0)]"
    and "observed sys = [(0, Inr 0), (0, Inr 0)]"
    and "constructions (conn sys) = 1"
    and "deactivations (conn sys) = 0"
    and "init_log (conn sys) = [\<lparr>props_chains = Some [1], props_optionalChains = None\<rparr>]"
    and "tasks sys = [Settled, Returned (Inr ()), Returned (Inr ())]"
    and "eagerConnection (conn sys) = Some 0"
    and "deactivations (conn (exec [CallActivate (Some 1), ChainChanged ''0x1''] sys)) = 0"
  unfolding sys_def by (simp_all add: step_defs)


theorem single_flight_overlapping_witness:
  "eagerConnection (conn (start (new_connector (Some [1]) None None))) = None
   \<and> constructions (conn (fire CallConnectEagerly (exec [] (start (new_connector (Some [1]) None None)))))
       \<noteq> constructions (conn (exec [] (start (new_connector (Some [1]) None None))))
   \<and> constructions (conn (fire CallConnectEagerly (exec [] (start (new_connector (Some [1]) None None))))) = 1
   \<and> eagerConnection (conn (fire CallConnectEagerly (exec [] (start (new_connector (Some [1]) None None))))) = Some 0
   \<and> eagerConnection (conn (exec [CallConnectEagerly, CallActivate None, Resume 0 Succeeded,
        Resume 0 (Built restored), Resume 1 Succeeded, Resume 2 Succeeded]
        (start (new_connector (Some [1]) None None)))) = Some 0
   \<and> deactivations (conn (exec [CallActivate (Some 1), ChainChanged ''0x1'']
      (exec [CallConnectEagerly, CallActivate None, Resume 0 Succeeded,
        Resume 0 (Built restored), Resume 1 Succeeded, Resume 2 Succeeded]
        (start (new_connector (Some [1]) None None))))) = deactivations (conn (exec [CallConnectEagerly, CallActivate None, Resume 0 Succeeded,
        Resume 0 (Built restored), Resume 1 Succeeded, Resume 2 Succeeded]
        (start (new_connector (Some [1]) None None))))
   \<and> eagerConnection (conn (exec [CallActivate (Some 1), ChainChanged ''0x1'']
      (exec [CallConnectEagerly, CallActivate None, Resume 0 Succeeded,
        Resume 0 (Built restored), Resume 1 Succeeded, Resume 2 Succeeded]
        (start (new_connector (Some [1]) None None))))) = Some 0
   \<and> constructions (conn (exec [CallActivate (Some 1), ChainChanged ''0x1'']
      (exec [CallConnectEagerly, CallActivate None, Resume 0 Succeeded,
        Resume 0 (Built restored), Resume 1 Succeeded, Resume 2 Succeeded]
        (start (new_connector (Some [1]) None None))))) = 1
   \<and> fst (isomorphicInitialize_call None (exec [CallActivate (Some 1), ChainChanged ''0x1'']
      (exec [CallConnectEagerly, CallActivate None, Resume 0 Succeeded,
        Resume 0 (Built restored), Resume 1 Succeeded, Resume 2 Succeeded]
        (start (new_connector (Some [1]) None None))))) = 0
   \<and> handed (exec [CallConnectEagerly, CallActivate None, Resume 0 Succeeded,
        Resume 0 (Built restored), Resume 1 Succeeded, Resume 2 Succeeded]
        (start (new_connector (Some [1]) None None))) = [(0, 0), (0, 0)]
   \<and> observed (exec [CallConnectEagerly, CallActivate None, Resume 0 Succeeded,
        Resume 0 (Built restored), Resume 1 Succeeded, Resume 2 Succeeded]
        (start (new_connector (Some [1]) None None))) = [(0, Inr 0), (0, Inr 0)]
   \<and> length (init_log (conn (exec [CallConnectEagerly, CallActivate None, Resume 0 Succeeded,
        Resume 0 (Built restored), Resume 1 Succeeded, Resume 2 Succeeded]
        (start (new_connector (Some [1]) None None))))) = 1"
proof -
  let ?c = "new_connector (Some [1]) None None"
  let ?evs = "[CallConnectEagerly, CallActivate None, Resume 0 Succeeded,
        Resume 0 (Built restored), Resume 1 Succeeded, Resume 2 Succeeded]"
  let ?e2 = "[CallActivate (Some 1), ChainChanged ''0x1'']"
  note o = overlapping_calls
  have z: "eagerConnection (conn (start ?c)) = None" "constructions (conn (exec [] (start ?c))) = 0"
    by (simp_all add: start_def new_connector_def)
  have n: "constructions (conn (fire CallConnectEagerly (exec [] (start ?c))))
      \<noteq> constructions (conn (exec [] (start ?c)))"
    by (simp add: step_defs)
  note a = single_flight_overlapping [where evs = "[]" and c = ?c and ev = CallConnectEagerly,
      OF refl, THEN conjunct1, THEN mp, OF n]
  have d: "deactivations (conn (exec ?e2 (exec ?evs (start ?c)))) = deactivations (conn (exec ?evs (start ?c)))"
    using o(4,8) by simp
  note b = single_flight_overlapping [where evs = ?evs and c = ?c and n = 0 and evs' = ?e2 and d = None,
      OF refl, THEN conjunct2, THEN conjunct1,
      THEN mp, OF conjI [OF o(7) d]]
  show ?thesis
    using z n a b d o by simp
qed

end
